theory Spec2Isabelle
  imports
    Complex_Main
    "HOL-Library.Char_ord"
    "HOL-Library.List_Lexorder"
    "HOL-Library.Multiset"
begin

section \<open>Partition maps (package kafkazk)\<close>

text \<open>
  Go's \<^verbatim>\<open>int\<close> is modelled as \<^typ>\<open>int\<close>: broker IDs and partition numbers are
  only compared and copied, never computed with. A Go \<^verbatim>\<open>string\<close> is a byte sequence
  compared bytewise, which is the lexicographic order on \<^typ>\<open>string\<close>. A slice is a
  list; a nil slice and an empty slice are both \<open>[]\<close> (the code only takes their
  length and ranges over them). A run-time panic is a value of type \<open>panic\<close>.
\<close>

datatype panic = NilPointerDereference | IndexOutOfRange | SliceBoundsOutOfRange

record Partition =
  Topic :: string
  Partition :: int
  Replicas :: "int list"

record PartitionMap =
  Version :: int
  Partitions :: "Partition list"

definition NewPartitionMap :: PartitionMap where
  "NewPartitionMap = \<lparr>Version = 1, Partitions = []\<rparr>"

subsection \<open>The sort interface of partitionList\<close>

definition partitionList_Less :: "Partition \<Rightarrow> Partition \<Rightarrow> bool" where
  "partitionList_Less a b =
     (if Topic a < Topic b then True
      else if Topic a > Topic b then False
      else Partition a < Partition b)"

text \<open>The canonical order: topic ascending, then partition index ascending.\<close>

definition canonical :: "Partition list \<Rightarrow> bool" where
  "canonical ps =
     sorted_wrt (\<lambda>a b. Topic a < Topic b \<or> (Topic a = Topic b \<and> Partition a \<le> Partition b)) ps"

subsection \<open>SetReplication\<close>

text \<open>
  The loop of \<^verbatim>\<open>SetReplication\<close> over \<^verbatim>\<open>pm.Partitions\<close>. The slice expression
  \<^verbatim>\<open>p.Replicas[:r]\<close> panics for a negative \<^verbatim>\<open>r\<close>; \<^verbatim>\<open>make([]int, r-l)\<close> is
  \<^verbatim>\<open>r-l\<close> zeroes.
\<close>

fun setReplicationLoop :: "int \<Rightarrow> Partition list \<Rightarrow> panic + Partition list" where
  "setReplicationLoop r [] = Inr []"
| "setReplicationLoop r (p # ps) =
     (let l = int (length (Replicas p)) in
      if l > r then
        (if r < 0 then Inl SliceBoundsOutOfRange
         else (case setReplicationLoop r ps of
                 Inl e \<Rightarrow> Inl e
               | Inr ps' \<Rightarrow> Inr (p\<lparr>Replicas := take (nat r) (Replicas p)\<rparr> # ps')))
      else if l < r then
        (case setReplicationLoop r ps of
           Inl e \<Rightarrow> Inl e
         | Inr ps' \<Rightarrow> Inr (p\<lparr>Replicas := Replicas p @ replicate (nat (r - l)) 0\<rparr> # ps'))
      else
        (case setReplicationLoop r ps of
           Inl e \<Rightarrow> Inl e
         | Inr ps' \<Rightarrow> Inr (p # ps')))"

definition SetReplication :: "int \<Rightarrow> PartitionMap \<Rightarrow> panic + PartitionMap" where
  "SetReplication r pm =
     (if r = 0 then Inr pm
      else (case setReplicationLoop r (Partitions pm) of
              Inl e \<Rightarrow> Inl e
            | Inr ps' \<Rightarrow> Inr (pm\<lparr>Partitions := ps'\<rparr>)))"

subsection \<open>equal\<close>





subsection \<open>Partition metadata\<close>

text \<open>
  \<^verbatim>\<open>%d\<close> of \<^verbatim>\<open>fmt.Sprintf\<close>: the decimal digits of an integer, with a minus sign
  for a negative one.
\<close>

fun showNat :: "nat \<Rightarrow> string" where
  "showNat n =
     (if n < 10 then [char_of (48 + n)]
      else showNat (n div 10) @ [char_of (48 + n mod 10)])"

definition showInt :: "int \<Rightarrow> string" where
  "showInt i = (if i < 0 then CHR ''-'' # showNat (nat (- i)) else showNat (nat i))"

text \<open>
  \<^verbatim>\<open>float64\<close> sizes and free storage are modelled as reals: sums and differences
  are exact, and the inputs hold no NaN and no infinity (the one NaN that finite
  inputs can produce, the mean of no brokers, is modelled where it arises). The
  entries of a \<^verbatim>\<open>PartitionMetaMap\<close> are taken to be non-nil pointers.
\<close>

record PartitionMeta =
  Size :: real

type_synonym PartitionMetaMap = "string \<rightharpoonup> (int \<rightharpoonup> PartitionMeta)"

text \<open>
  \<^verbatim>\<open>PartitionMetaMap.Size\<close> returns \<^verbatim>\<open>(float64, error)\<close>: the size and nil, or
  \<^verbatim>\<open>0.00\<close> and an error.
\<close>

definition pmm_Size :: "PartitionMetaMap \<Rightarrow> Partition \<Rightarrow> real \<times> string option" where
  "pmm_Size pmm p =
     (case pmm (Topic p) of
        None \<Rightarrow> (0, Some (''Topic '' @ Topic p @ '' not found in partition metadata''))
      | Some t \<Rightarrow>
          (case t (Partition p) of
             None \<Rightarrow>
               (0, Some (''Partition '' @ showInt (Partition p) @ '' not found in partition metadata''))
           | Some partn \<Rightarrow> (Size partn, None)))"

definition partitionsBySize_Less :: "PartitionMetaMap \<Rightarrow> Partition \<Rightarrow> Partition \<Rightarrow> bool" where
  "partitionsBySize_Less pmm a b =
     (let s1 = fst (pmm_Size pmm a); s2 = fst (pmm_Size pmm b) in
      if s1 > s2 then True
      else if s1 < s2 then False
      else Partition a < Partition b)"

subsection \<open>The Go standard library\<close>

text \<open>
  \<^verbatim>\<open>sort.Sort\<close> and the process-global generator of \<^verbatim>\<open>math/rand\<close> belong to the Go
  distribution, not to the repository; they are parameters of the model.
  \<^item> \<open>sort_Sort lt xs\<close> is the slice after \<^verbatim>\<open>sort.Sort\<close> with the given \<^verbatim>\<open>Less\<close>
    (the sort is in place and not stable).
  \<^item> \<open>'g\<close> is the state of the global generator; \<open>rand_Seed s\<close> is the state that
    \<^verbatim>\<open>rand.Seed(s)\<close> installs.
  \<^item> \<open>rand_Shuffle g xs\<close> is the slice after \<^verbatim>\<open>rand.Shuffle(len(xs), swap)\<close>, where
    \<^verbatim>\<open>swap\<close> exchanges two elements of \<^verbatim>\<open>xs\<close>, run from generator state \<open>g\<close>,
    together with the generator state it leaves.
  \<^item> \<open>json_Unmarshal s pm\<close> is the outcome of \<^verbatim>\<open>json.Unmarshal([]byte(s), &p)\<close> for a
    pointer \<^verbatim>\<open>p\<close> to the map \<open>pm\<close>: the text of the error, or what \<^verbatim>\<open>p\<close> points to
    afterwards, which is \<open>None\<close> (nil) for the JSON text \<^verbatim>\<open>null\<close>.
\<close>

record 'g stdlib =
  sort_Sort :: "(Partition \<Rightarrow> Partition \<Rightarrow> bool) \<Rightarrow> Partition list \<Rightarrow> Partition list"
  rand_Seed :: "int \<Rightarrow> 'g"
  rand_Shuffle :: "'g \<Rightarrow> int list \<Rightarrow> int list \<times> 'g"
  json_Unmarshal :: "string \<Rightarrow> PartitionMap \<Rightarrow> string + PartitionMap option"

text \<open>
  What the library documents: sorting and shuffling permute, and the result of
  \<^verbatim>\<open>sort.Sort\<close> is in the order of \<^verbatim>\<open>partitionList.Less\<close>.
\<close>

definition stdlib_ok :: "'g stdlib \<Rightarrow> bool" where
  "stdlib_ok lib \<longleftrightarrow>
     (\<forall>lt xs. mset (sort_Sort lib lt xs) = mset xs) \<and>
     (\<forall>xs. sorted_wrt (\<lambda>a b. \<not> partitionList_Less b a) (sort_Sort lib partitionList_Less xs)) \<and>
     (\<forall>g xs. mset (fst (rand_Shuffle lib g xs)) = mset xs)"

subsection \<open>Brokers\<close>

text \<open>
  Modelled from the spec: the declaration of \<^verbatim>\<open>Broker\<close> is not among the sources
  (of the package's broker code only \<^verbatim>\<open>brokers_test.go\<close> is). The fields are the
  attributes of section 3 of the specification, under the names that the tests and
  the callers use.
\<close>

record Broker =
  ID :: int
  Locality :: string
  Tags :: "(string \<times> string) list"
  Used :: int
  StorageFree :: real
  New :: bool
  Missing :: bool
  OldMissing :: bool
  Replace :: bool

text \<open>
  Modelled from the spec: the declaration of \<^verbatim>\<open>BrokerMap\<close> is not among the sources.
  Section 3: a mapping from broker ID to broker; the tests build it as
  \<^verbatim>\<open>map[int]*Broker\<close>. It is an association list from keys to brokers, in ascending
  key order, read with \<open>map_of\<close>. A pointer to a broker of the map is the key it is
  stored under (the entries are distinct non-nil objects), so a write through the
  pointer is an update of the entry, and a nil pointer is \<open>None\<close>.
\<close>

type_synonym BrokerMap = "(int \<times> Broker) list"

text \<open>
  Modelled from the spec: a write through the pointer \<open>k\<close> into a \<^verbatim>\<open>BrokerMap\<close>, as
  the representation above has it.
\<close>

definition bm_update :: "BrokerMap \<Rightarrow> int \<Rightarrow> (Broker \<Rightarrow> Broker) \<Rightarrow> BrokerMap" where
  "bm_update bm k f = map (\<lambda>(k', b). if k' = k then (k', f b) else (k', b)) bm"

text \<open>
  Modelled from the spec: \<^verbatim>\<open>filteredList\<close> is not among the sources. Section 4.1:
  an ordered list excluding stub ID 0 and any broker with \<^verbatim>\<open>replace == true\<close>.
  The list holds pointers.
\<close>

definition filteredList :: "BrokerMap \<Rightarrow> int list" where
  "filteredList bm = map fst (filter (\<lambda>(k, b). ID b \<noteq> 0 \<and> \<not> Replace b) bm)"

text \<open>
  Modelled from the spec: the constraints type is not among the sources. Section 3:
  the localities and the tag bindings already present, and a request size.
\<close>

record constraints =
  requestSize :: real
  localities :: "string list"
  tagset :: "(string \<times> string) list"

text \<open>
  Modelled from the spec: the loop of \<^verbatim>\<open>mergeConstraints\<close>, which is not among the
  sources. Section 4.2: the brokers of a replica set are folded into one value by
  union, stubs (ID 0) skipped. The replica sets that the callers build hold
  \<^verbatim>\<open>bm[bid]\<close>, which is nil for an absent key; looking at a nil broker panics.
\<close>

fun mergeLoop :: "Broker option list \<Rightarrow> constraints \<Rightarrow> panic + constraints" where
  "mergeLoop [] c = Inr c"
| "mergeLoop (None # bs) c = Inl NilPointerDereference"
| "mergeLoop (Some b # bs) c =
     (if ID b = 0 then mergeLoop bs c
      else mergeLoop bs (c\<lparr>localities := localities c @ [Locality b],
                          tagset := tagset c @ Tags b\<rparr>))"

text \<open>
  Modelled from the spec: \<^verbatim>\<open>mergeConstraints\<close> is not among the sources. Section
  4.2: the fold starts from no locality and no tag; the request size is left for
  the caller to set.
\<close>

definition mergeConstraints :: "Broker option list \<Rightarrow> panic + constraints" where
  "mergeConstraints replicaSet =
     mergeLoop replicaSet \<lparr>requestSize = 0, localities = [], tagset = []\<rparr>"

text \<open>
  Modelled from the spec: the admissibility test of \<^verbatim>\<open>bestCandidate\<close> is not among
  the sources. Section 4.1: the locality of the broker must not be in the locality
  set; for every tag key of the tag set that the broker has, the value must match; a
  request size above zero must fit into the free storage.
\<close>

definition passes :: "constraints \<Rightarrow> Broker \<Rightarrow> bool" where
  "passes c b \<longleftrightarrow>
     Locality b \<notin> set (localities c) \<and>
     list_all (\<lambda>(k, v). case map_of (Tags b) k of None \<Rightarrow> True | Some v' \<Rightarrow> v' = v) (tagset c) \<and>
     (if requestSize c > 0 then StorageFree b \<ge> requestSize c else True)"

text \<open>
  Modelled from the spec: the order by count is not among the sources. Section 4.1:
  ascending \<^verbatim>\<open>used\<close>, ties by ascending ID.
\<close>

definition byCount :: "int \<times> Broker \<Rightarrow> int \<times> Broker \<Rightarrow> bool" where
  "byCount x y \<longleftrightarrow>
     Used (snd x) < Used (snd y) \<or> (Used (snd x) = Used (snd y) \<and> ID (snd x) < ID (snd y))"

text \<open>
  Modelled from the spec: the order by storage is not among the sources. Section
  4.1: descending \<^verbatim>\<open>storage_free\<close>, ties by ascending ID.
\<close>

definition byStorage :: "int \<times> Broker \<Rightarrow> int \<times> Broker \<Rightarrow> bool" where
  "byStorage x y \<longleftrightarrow>
     StorageFree (snd x) > StorageFree (snd y) \<or>
     (StorageFree (snd x) = StorageFree (snd y) \<and> ID (snd x) < ID (snd y))"

text \<open>
  Modelled from the spec: the sorting of a broker list is not among the sources; the
  specification gives the orders only. The insertion of one element into a list in
  order.
\<close>

fun insertBy :: "('a \<Rightarrow> 'a \<Rightarrow> bool) \<Rightarrow> 'a \<Rightarrow> 'a list \<Rightarrow> 'a list" where
  "insertBy lt x [] = [x]"
| "insertBy lt x (y # ys) = (if lt y x then y # insertBy lt x ys else x # y # ys)"

text \<open>
  Modelled from the spec: the sorting of a broker list is not among the sources; the
  specification gives the orders only. An insertion sort.
\<close>

definition sortBy :: "('a \<Rightarrow> 'a \<Rightarrow> bool) \<Rightarrow> 'a list \<Rightarrow> 'a list" where
  "sortBy lt xs = foldr (insertBy lt) xs []"

text \<open>
  Modelled from the spec: reading the brokers behind a list of pointers, as the
  ranking of \<^verbatim>\<open>bestCandidate\<close> (not among the sources) must; the list holds
  (pointer, broker) pairs.
\<close>

fun derefAll :: "BrokerMap \<Rightarrow> int list \<Rightarrow> panic + (int \<times> Broker) list" where
  "derefAll bm [] = Inr []"
| "derefAll bm (k # ks) =
     (case map_of bm k of
        None \<Rightarrow> Inl NilPointerDereference
      | Some b \<Rightarrow> (case derefAll bm ks of Inl e \<Rightarrow> Inl e | Inr bs \<Rightarrow> Inr ((k, b) # bs)))"

text \<open>
  Modelled from the spec: \<^verbatim>\<open>PseudoShuffle\<close> is not among the sources. Section 4.1:
  the brokers are grouped by \<^verbatim>\<open>used\<close>. The groups are the runs of equal \<^verbatim>\<open>used\<close>
  of a list in by-count order.
\<close>

fun groupsByUsed :: "(int \<times> Broker) list \<Rightarrow> (int \<times> Broker) list list" where
  "groupsByUsed [] = []"
| "groupsByUsed (x # xs) =
     (case groupsByUsed xs of
        [] \<Rightarrow> [[x]]
      | grp # grps \<Rightarrow>
          (if Used (snd x) = Used (snd (hd grp)) then (x # grp) # grps else [x] # grp # grps))"

text \<open>
  Modelled from the spec: \<^verbatim>\<open>PseudoShuffle\<close> is not among the sources. Section 4.1:
  each group is shuffled; the generator shuffles the groups in turn.
\<close>

fun shuffleGroups :: "'g stdlib \<Rightarrow> int list list \<Rightarrow> 'g \<Rightarrow> int list \<times> 'g" where
  "shuffleGroups lib [] g = ([], g)"
| "shuffleGroups lib (grp # grps) g =
     (case rand_Shuffle lib g grp of
        (grp', g') \<Rightarrow> (case shuffleGroups lib grps g' of (rest, g'') \<Rightarrow> (grp' @ rest, g'')))"

text \<open>
  Modelled from the spec: \<^verbatim>\<open>PseudoShuffle(seed)\<close> is not among the sources. Section
  4.1: the brokers are grouped by \<^verbatim>\<open>used\<close>, and within each group shuffled with a
  generator seeded by the seed. Section 5: the generator is freshly seeded per
  pseudo-shuffle.
\<close>

definition pseudoShuffle :: "'g stdlib \<Rightarrow> int \<Rightarrow> (int \<times> Broker) list \<Rightarrow> int list \<times> 'g" where
  "pseudoShuffle lib seed bs =
     shuffleGroups lib (map (map fst) (groupsByUsed (sortBy byCount bs))) (rand_Seed lib seed)"

text \<open>
  Modelled from the spec: the text of the error of \<^verbatim>\<open>bestCandidate\<close> is not among
  the sources; section 4.1 names the error \<^verbatim>\<open>NO_SUITABLE_BROKER\<close>.
\<close>

definition errNoBrokers :: string where
  "errNoBrokers = ''NO_SUITABLE_BROKER''"

text \<open>
  Modelled from the spec: the search of \<^verbatim>\<open>bestCandidate\<close> is not among the sources.
  Section 4.1: the first broker of the ranked list that satisfies the constraints.
\<close>

fun firstPassing :: "constraints \<Rightarrow> BrokerMap \<Rightarrow> int list \<Rightarrow> int option" where
  "firstPassing c bm [] = None"
| "firstPassing c bm (k # ks) =
     (case map_of bm k of
        None \<Rightarrow> firstPassing c bm ks
      | Some b \<Rightarrow> (if passes c b then Some k else firstPassing c bm ks))"

text \<open>
  Modelled from the spec: \<^verbatim>\<open>bestCandidate\<close> is not among the sources. Section 4.1:
  the first broker of the ranked list that satisfies the constraints; for the count
  order the list is pseudo-shuffled with the seed first; no admissible broker is the
  error \<^verbatim>\<open>NO_SUITABLE_BROKER\<close>. Section 4.4: the free storage of the chosen broker
  is decremented by the size of the partition at once (the request size of the
  constraints, zero when unset). The result is an error text or the pointer to the
  chosen broker, with the updated brokers and the generator state.
\<close>

definition bestCandidate ::
  "'g stdlib \<Rightarrow> 'g \<Rightarrow> BrokerMap \<Rightarrow> int list \<Rightarrow> constraints \<Rightarrow> string \<Rightarrow> int \<Rightarrow>
     panic + ((string + int) \<times> BrokerMap \<times> 'g)" where
  "bestCandidate lib g bm bl c by seed =
     (case derefAll bm bl of
        Inl e \<Rightarrow> Inl e
      | Inr bs \<Rightarrow>
          (case (if by = ''count'' then pseudoShuffle lib seed bs
                 else (map fst (sortBy byStorage bs), g)) of
             (ranked, g') \<Rightarrow>
               (case firstPassing c bm ranked of
                  None \<Rightarrow> Inr (Inl errNoBrokers, bm, g')
                | Some k \<Rightarrow>
                    Inr (Inr k,
                         bm_update bm k (\<lambda>b. b\<lparr>StorageFree := StorageFree b - requestSize c\<rparr>),
                         g'))))"

subsection \<open>Rebuild\<close>

text \<open>
  The state that the placement loops change: the map being built, the soft errors,
  and the brokers behind the pointers of \<^verbatim>\<open>bm\<close> and \<^verbatim>\<open>bl\<close>. The state of the global
  generator is passed next to it.
\<close>

record placeState =
  newMap :: PartitionMap
  errs :: "string list"
  bmap :: BrokerMap

record posState = placeState +
  skipped :: nat

record partState = placeState +
  newPartn :: Partition

text \<open>\<^verbatim>\<open>fmt.Sprintf("%s p%d: %s", partn.Topic, partn.Partition, msg)\<close>\<close>

definition errString :: "Partition \<Rightarrow> string \<Rightarrow> string" where
  "errString partn msg = Topic partn @ '' p'' @ showInt (Partition partn) @ '': '' @ msg"

text \<open>
  The lines that \<^verbatim>\<open>placeByPosition\<close> and \<^verbatim>\<open>placeByPartition\<close> share word for word,
  from the storage test to the error check after \<^verbatim>\<open>bestCandidate\<close>: the result is
  the soft error after which the loop continues, or \<^verbatim>\<open>newBroker.ID\<close>.
\<close>

definition findReplacement ::
  "'g stdlib \<Rightarrow> 'g \<Rightarrow> BrokerMap \<Rightarrow> int list \<Rightarrow> PartitionMetaMap \<Rightarrow> string \<Rightarrow> Partition \<Rightarrow>
     constraints \<Rightarrow> int \<Rightarrow> panic + ((string + int) \<times> BrokerMap \<times> 'g)" where
  "findReplacement lib g b bl pmm strategy partn c0 seed =
     (case (if strategy = ''storage''
            then (case pmm_Size pmm partn of
                    (s, Some err) \<Rightarrow> Inl err
                  | (s, None) \<Rightarrow> Inr (c0\<lparr>requestSize := s\<rparr>))
            else Inr c0) of
        Inl err \<Rightarrow> Inr (Inl (errString partn err), b, g)
      | Inr c \<Rightarrow>
          (case bestCandidate lib g b bl c strategy seed of
             Inl e \<Rightarrow> Inl e
           | Inr (Inl err, b', g') \<Rightarrow> Inr (Inl (errString partn err), b', g')
           | Inr (Inr k, b', g') \<Rightarrow>
               (case map_of b' k of
                  None \<Rightarrow> Inl NilPointerDereference
                | Some newBroker \<Rightarrow> Inr (Inr (ID newBroker), b', g'))))"

text \<open>\<^verbatim>\<open>newMap.Partitions[n].Replicas = append(newMap.Partitions[n].Replicas, id)\<close>\<close>

definition appendReplica :: "nat \<Rightarrow> int \<Rightarrow> PartitionMap \<Rightarrow> panic + PartitionMap" where
  "appendReplica n i m =
     (if n < length (Partitions m)
      then Inr (m\<lparr>Partitions :=
                    (Partitions m)[n := (Partitions m ! n)\<lparr>Replicas := Replicas (Partitions m ! n) @ [i]\<rparr>]\<rparr>)
      else Inl IndexOutOfRange)"

text \<open>The body of the inner loop of \<^verbatim>\<open>placeByPosition\<close>, for partition \<open>n\<close> in pass \<open>pass\<close>.\<close>

definition positionStep ::
  "'g stdlib \<Rightarrow> int list \<Rightarrow> PartitionMetaMap \<Rightarrow> string \<Rightarrow> nat \<Rightarrow> nat \<Rightarrow> Partition \<Rightarrow>
     'g \<Rightarrow> posState \<Rightarrow> panic + (posState \<times> 'g)" where
  "positionStep lib bl pmm strategy pass n partn g st0 =
     (let st = (if pass = 0
                then st0\<lparr>newMap := (newMap st0)\<lparr>Partitions := Partitions (newMap st0) @
                       [\<lparr>Topic = Topic partn, Partition = Partition partn, Replicas = []\<rparr>]\<rparr>\<rparr>
                else st0)
      in
      if int pass > int (length (Replicas partn)) - 1 then Inr (st\<lparr>skipped := skipped st + 1\<rparr>, g)
      else
        (let bid = Replicas partn ! pass in
         case map_of (bmap st) bid of
           None \<Rightarrow> Inl NilPointerDereference
         | Some b \<Rightarrow>
             if \<not> Replace b then
               (case appendReplica n bid (newMap st) of
                  Inl e \<Rightarrow> Inl e
                | Inr m \<Rightarrow> Inr (st\<lparr>newMap := m\<rparr>, g))
             else if \<not> n < length (Partitions (newMap st)) then Inl IndexOutOfRange
             else
               (case mergeConstraints
                       (map (map_of (bmap st)) (Replicas partn) @
                        map (map_of (bmap st)) (Replicas (Partitions (newMap st) ! n))) of
                  Inl e \<Rightarrow> Inl e
                | Inr c \<Rightarrow>
                    (case findReplacement lib g (bmap st) bl pmm strategy partn c
                            (int pass * int n + 1) of
                       Inl e \<Rightarrow> Inl e
                     | Inr (Inl err, b', g') \<Rightarrow> Inr (st\<lparr>errs := errs st @ [err], bmap := b'\<rparr>, g')
                     | Inr (Inr newID, b', g') \<Rightarrow>
                         (case appendReplica n newID (newMap st) of
                            Inl e \<Rightarrow> Inl e
                          | Inr m \<Rightarrow> Inr (st\<lparr>newMap := m, bmap := b'\<rparr>, g'))))))"

text \<open>The inner loop \<^verbatim>\<open>for n, partn := range pm.Partitions\<close>, from index \<open>n\<close> on.\<close>

fun positionPass ::
  "'g stdlib \<Rightarrow> int list \<Rightarrow> PartitionMetaMap \<Rightarrow> string \<Rightarrow> nat \<Rightarrow> nat \<Rightarrow> Partition list \<Rightarrow>
     'g \<Rightarrow> posState \<Rightarrow> panic + (posState \<times> 'g)" where
  "positionPass lib bl pmm strategy pass n [] g st = Inr (st, g)"
| "positionPass lib bl pmm strategy pass n (partn # rest) g st =
     (case positionStep lib bl pmm strategy pass n partn g st of
        Inl e \<Rightarrow> Inl e
      | Inr (st', g') \<Rightarrow> positionPass lib bl pmm strategy pass (Suc n) rest g' st')"

text \<open>The final check of both placements for replica sets of length zero.\<close>

fun zeroReplicaCheck :: "Partition list \<Rightarrow> string list \<Rightarrow> string list" where
  "zeroReplicaCheck [] es = es"
| "zeroReplicaCheck (partn # rest) es =
     zeroReplicaCheck rest
       (if length (Replicas partn) = 0
        then es @ [errString partn ''configured to zero replicas'']
        else es)"

text \<open>The body of the inner loop of \<^verbatim>\<open>placeByPartition\<close>, over \<^verbatim>\<open>partn.Replicas\<close>.\<close>

fun partitionReplicas ::
  "'g stdlib \<Rightarrow> int list \<Rightarrow> PartitionMetaMap \<Rightarrow> string \<Rightarrow> Partition \<Rightarrow> int list \<Rightarrow>
     'g \<Rightarrow> partState \<Rightarrow> panic + (partState \<times> 'g)" where
  "partitionReplicas lib bl pmm strategy partn [] g st = Inr (st, g)"
| "partitionReplicas lib bl pmm strategy partn (bid # rest) g st =
     (case map_of (bmap st) bid of
        None \<Rightarrow> Inl NilPointerDereference
      | Some b \<Rightarrow>
          if \<not> Replace b then
            partitionReplicas lib bl pmm strategy partn rest g
              (st\<lparr>newPartn := (newPartn st)\<lparr>Replicas := Replicas (newPartn st) @ [bid]\<rparr>\<rparr>)
          else
            (case mergeConstraints
                    (map (map_of (bmap st)) (Replicas partn) @
                     map (map_of (bmap st)) (Replicas (newPartn st))) of
               Inl e \<Rightarrow> Inl e
             | Inr c \<Rightarrow>
                 (case findReplacement lib g (bmap st) bl pmm strategy partn c 1 of
                    Inl e \<Rightarrow> Inl e
                  | Inr (Inl err, b', g') \<Rightarrow>
                      partitionReplicas lib bl pmm strategy partn rest g'
                        (st\<lparr>errs := errs st @ [err], bmap := b'\<rparr>)
                  | Inr (Inr newID, b', g') \<Rightarrow>
                      partitionReplicas lib bl pmm strategy partn rest g'
                        (st\<lparr>newPartn := (newPartn st)\<lparr>Replicas := Replicas (newPartn st) @ [newID]\<rparr>,
                            bmap := b'\<rparr>))))"

text \<open>The outer loop of \<^verbatim>\<open>placeByPartition\<close>, over \<^verbatim>\<open>pm.Partitions\<close>.\<close>

fun partitionLoop ::
  "'g stdlib \<Rightarrow> int list \<Rightarrow> PartitionMetaMap \<Rightarrow> string \<Rightarrow> Partition list \<Rightarrow>
     'g \<Rightarrow> placeState \<Rightarrow> panic + (placeState \<times> 'g)" where
  "partitionLoop lib bl pmm strategy [] g st = Inr (st, g)"
| "partitionLoop lib bl pmm strategy (partn # rest) g st =
     (case partitionReplicas lib bl pmm strategy partn (Replicas partn) g
             \<lparr>newMap = newMap st, errs = errs st, bmap = bmap st,
              newPartn = \<lparr>Topic = Topic partn, Partition = Partition partn, Replicas = []\<rparr>\<rparr> of
        Inl e \<Rightarrow> Inl e
      | Inr (st', g') \<Rightarrow>
          partitionLoop lib bl pmm strategy rest g'
            \<lparr>newMap = (newMap st')\<lparr>Partitions := Partitions (newMap st') @ [newPartn st']\<rparr>,
             errs = errs st', bmap = bmap st'\<rparr>)"

text \<open>
  \<^verbatim>\<open>placeByPartition\<close>: the new map, the errors, and the brokers and the generator
  as the call leaves them.
\<close>

definition placeByPartition ::
  "'g stdlib \<Rightarrow> 'g \<Rightarrow> PartitionMap \<Rightarrow> BrokerMap \<Rightarrow> PartitionMetaMap \<Rightarrow> string \<Rightarrow>
     panic + (PartitionMap \<times> string list \<times> BrokerMap \<times> 'g)" where
  "placeByPartition lib g pm b pmm strategy =
     (case partitionLoop lib (filteredList b) pmm strategy (Partitions pm) g
             \<lparr>newMap = NewPartitionMap, errs = [], bmap = b\<rparr> of
        Inl e \<Rightarrow> Inl e
      | Inr (st, g') \<Rightarrow>
          Inr (newMap st, zeroReplicaCheck (Partitions (newMap st)) (errs st), bmap st, g'))"

text \<open>
  \<^verbatim>\<open>shuffle\<close>: for partition \<open>n\<close> the global generator is seeded with \<^verbatim>\<open>int64(n<<2)\<close>
  and the replica list is shuffled. (The shift cannot overflow 64 bits for an index
  of a slice that fits into memory.)
\<close>

fun shuffleLoop :: "'g stdlib \<Rightarrow> nat \<Rightarrow> Partition list \<Rightarrow> 'g \<Rightarrow> Partition list \<times> 'g" where
  "shuffleLoop lib n [] g = ([], g)"
| "shuffleLoop lib n (p # ps) g =
     (case rand_Shuffle lib (rand_Seed lib (push_bit 2 (int n))) (Replicas p) of
        (rs, g') \<Rightarrow>
          (case shuffleLoop lib (Suc n) ps g' of
             (ps', g'') \<Rightarrow> (p\<lparr>Replicas := rs\<rparr> # ps', g'')))"

definition shuffle :: "'g stdlib \<Rightarrow> 'g \<Rightarrow> PartitionMap \<Rightarrow> PartitionMap \<times> 'g" where
  "shuffle lib g pm =
     (case shuffleLoop lib 0 (Partitions pm) g of (ps', g') \<Rightarrow> (pm\<lparr>Partitions := ps'\<rparr>, g'))"

text \<open>
  The outer loop of \<^verbatim>\<open>placeByPosition\<close>:
  \<^verbatim>\<open>for skipped := 0; skipped < len(pm.Partitions); { ...; pass++ }\<close>. The counter
  \<^verbatim>\<open>skipped\<close> is declared once, in the init statement, and has no post statement.
\<close>

function positionLoop ::
  "'g stdlib \<Rightarrow> int list \<Rightarrow> PartitionMetaMap \<Rightarrow> string \<Rightarrow> Partition list \<Rightarrow> nat \<Rightarrow>
     'g \<Rightarrow> posState \<Rightarrow> panic + (posState \<times> 'g)" where
  "positionLoop lib bl pmm strategy parts pass g st =
     (if skipped st < length parts then
        (case positionPass lib bl pmm strategy pass 0 parts g st of
           Inl e \<Rightarrow> Inl e
         | Inr (st', g') \<Rightarrow> positionLoop lib bl pmm strategy parts (Suc pass) g' st')
      else Inr (st, g))"
  by pat_completeness auto
termination
proof (relation "measure (\<lambda>(lib, bl, pmm, strategy, parts, pass, g, st).
          if length parts \<le> skipped st then 0
          else Suc (Max (insert 0 (set (map (\<lambda>p. length (Replicas p)) parts))) - pass))")
  show "wf (measure (\<lambda>(lib :: 'g stdlib, bl :: int list, pmm :: PartitionMetaMap, strategy :: string,
               parts, pass, g :: 'g, st).
          if length parts \<le> skipped st then 0
          else Suc (Max (insert 0 (set (map (\<lambda>p. length (Replicas p)) parts))) - pass)))"
    by simp
next
  fix lib :: "'g stdlib" and bl pmm strategy parts pass and g :: 'g and st x2 st' g'
  assume run: "positionPass lib bl pmm strategy pass 0 parts g st = Inr x2" "(st', g') = x2"
  have step: "positionStep lib bl pmm strategy pass n partn h s = Inr (s', h') \<Longrightarrow>
      skipped s' = skipped s + (if length (Replicas partn) \<le> pass then 1 else 0)"
    for n partn h s s' h'
    by (auto simp: positionStep_def Let_def appendReplica_def
          split: if_splits option.splits sum.splits prod.splits)
  have pass: "positionPass lib bl pmm strategy pass n ps h s = Inr (s', h') \<Longrightarrow>
      skipped s' = skipped s + length (filter (\<lambda>p. length (Replicas p) \<le> pass) ps)"
    for n ps h s s' h'
  proof (induction ps arbitrary: n h s)
    case Nil
    then show ?case by simp
  next
    case (Cons p ps)
    from Cons.prems obtain s1 h1 where
      s1: "positionStep lib bl pmm strategy pass n p h s = Inr (s1, h1)" and
      r: "positionPass lib bl pmm strategy pass (Suc n) ps h1 s1 = Inr (s', h')"
      by (auto split: sum.splits)
    from step [OF s1] Cons.IH [OF r] show ?case by simp
  qed
  have short: "length (filter P xs) < length xs \<Longrightarrow> \<exists>x \<in> set xs. \<not> P x"
    for P and xs :: "Partition list"
    by (induction xs) (auto split: if_splits)
  from run have sk:
    "skipped st' = skipped st + length (filter (\<lambda>p. length (Replicas p) \<le> pass) parts)"
    using pass by metis
  show "((lib, bl, pmm, strategy, parts, Suc pass, g', st'), (lib, bl, pmm, strategy, parts, pass, g, st))
          \<in> measure (\<lambda>(lib, bl, pmm, strategy, parts, pass, g, st).
          if length parts \<le> skipped st then 0
          else Suc (Max (insert 0 (set (map (\<lambda>p. length (Replicas p)) parts))) - pass))"
    if lt: "skipped st < length parts"
  proof (cases "length parts \<le> skipped st'")
    case True
    with lt show ?thesis by simp
  next
    case False
    with sk have "length (filter (\<lambda>p. length (Replicas p) \<le> pass) parts) < length parts" by simp
    from short [OF this] obtain p where p: "p \<in> set parts" "pass < length (Replicas p)" by auto
    then have "length (Replicas p) \<le> Max (insert 0 (set (map (\<lambda>p. length (Replicas p)) parts)))"
      by (intro Max_ge) auto
    with p have "pass < Max (insert 0 (set (map (\<lambda>p. length (Replicas p)) parts)))"
      by linarith
    then have "Max (insert 0 (set (map (\<lambda>p. length (Replicas p)) parts))) - Suc pass
                 < Max (insert 0 (set (map (\<lambda>p. length (Replicas p)) parts))) - pass"
      by linarith
    with False lt show ?thesis by simp
  qed
qed

declare positionLoop.simps [simp del]

text \<open>
  \<^verbatim>\<open>placeByPosition\<close>: the new map, the errors, and the brokers and the generator
  as the call leaves them.
\<close>

definition placeByPosition ::
  "'g stdlib \<Rightarrow> 'g \<Rightarrow> PartitionMap \<Rightarrow> BrokerMap \<Rightarrow> PartitionMetaMap \<Rightarrow> string \<Rightarrow>
     panic + (PartitionMap \<times> string list \<times> BrokerMap \<times> 'g)" where
  "placeByPosition lib g pm b pmm strategy =
     (case positionLoop lib (filteredList b) pmm strategy (Partitions pm) 0 g
             \<lparr>newMap = NewPartitionMap, errs = [], bmap = b, skipped = 0\<rparr> of
        Inl e \<Rightarrow> Inl e
      | Inr (st, g') \<Rightarrow>
          Inr (newMap st, zeroReplicaCheck (Partitions (newMap st)) (errs st), bmap st, g'))"

text \<open>
  \<^verbatim>\<open>Rebuild\<close> on a non-nil receiver. The result is the returned pair (a nil map is
  \<open>None\<close>), and what the call leaves behind: the receiver, sorted in place, the
  brokers and the generator.
\<close>

definition Rebuild ::
  "'g stdlib \<Rightarrow> 'g \<Rightarrow> PartitionMap \<Rightarrow> BrokerMap \<Rightarrow> PartitionMetaMap \<Rightarrow> string \<Rightarrow>
     panic + ((PartitionMap option \<times> string list) \<times> PartitionMap \<times> BrokerMap \<times> 'g)" where
  "Rebuild lib g pm b pmm strategy =
     (if strategy = ''count'' then
        (let pm1 = pm\<lparr>Partitions := sort_Sort lib partitionList_Less (Partitions pm)\<rparr> in
         case placeByPosition lib g pm1 b pmm strategy of
           Inl e \<Rightarrow> Inl e
         | Inr (m, es, b', g') \<Rightarrow>
             Inr ((Some (m\<lparr>Partitions := sort_Sort lib partitionList_Less (Partitions m)\<rparr>), es),
                  pm1, b', g'))
      else if strategy = ''storage'' then
        (let pm1 = pm\<lparr>Partitions := sort_Sort lib (partitionsBySize_Less pmm) (Partitions pm)\<rparr> in
         case placeByPartition lib g pm1 b pmm strategy of
           Inl e \<Rightarrow> Inl e
         | Inr (m, es, b', g') \<Rightarrow>
             (case shuffle lib g' m of
                (m', g'') \<Rightarrow>
                  Inr ((Some (m'\<lparr>Partitions := sort_Sort lib partitionList_Less (Partitions m')\<rparr>), es),
                       pm1, b', g'')))
      else
        Inr ((None, [''Invalid rebuild strategy '' @ [CHR 0x27] @ strategy @ [CHR 0x27]]),
             pm, b, g))"

text \<open>
  \<^verbatim>\<open>PartitionMapFromString\<close>: the result is \<^verbatim>\<open>(nil, error)\<close> or \<^verbatim>\<open>(pm, nil)\<close>; after
  the JSON text \<^verbatim>\<open>null\<close> the pointer \<^verbatim>\<open>pm\<close> is nil and \<^verbatim>\<open>pm.Partitions\<close> panics.
\<close>

definition PartitionMapFromString :: "'g stdlib \<Rightarrow> string \<Rightarrow> panic + (string + PartitionMap)" where
  "PartitionMapFromString lib s =
     (case json_Unmarshal lib s NewPartitionMap of
        Inl err \<Rightarrow> Inr (Inl (''Error parsing topic map: '' @ err))
      | Inr None \<Rightarrow> Inl NilPointerDereference
      | Inr (Some pm) \<Rightarrow> Inr (Inr (pm\<lparr>Partitions := sort_Sort lib partitionList_Less (Partitions pm)\<rparr>)))"

section \<open>Applying a relocation plan (package commands)\<close>

text \<open>
  \<^verbatim>\<open>relocationPlan\<close> is \<^verbatim>\<open>map[string]map[int][2]int\<close>; the pair is (source, destination).
\<close>

type_synonym relocationPlan = "string \<rightharpoonup> (int \<rightharpoonup> int \<times> int)"


definition plan_add :: "relocationPlan \<Rightarrow> Partition \<Rightarrow> int \<times> int \<Rightarrow> relocationPlan" where
  "plan_add r p ids =
     (let t = (case r (Topic p) of None \<Rightarrow> Map.empty | Some t \<Rightarrow> t)
      in r(Topic p \<mapsto> t(Partition p \<mapsto> ids)))"





section \<open>Planning relocations (package commands)\<close>

text \<open>
  Modelled from the spec: \<^verbatim>\<open>Mappings\<close> of package kafkazk is not among the sources.
  Section 3: an index from a broker ID to the partitions that hold a replica on that
  broker.
\<close>

type_synonym Mappings = "int \<rightharpoonup> Partition list"

text \<open>
  Modelled from the spec: \<^verbatim>\<open>LargestPartitions\<close> is not among the sources. Section 3:
  up to N partitions of the broker, the largest first. The caller drops its error;
  a broker without an entry has no partitions.
\<close>

definition LargestPartitions :: "Mappings \<Rightarrow> int \<Rightarrow> int \<Rightarrow> PartitionMetaMap \<Rightarrow> Partition list" where
  "LargestPartitions m i k pmm =
     (case m i of
        None \<Rightarrow> []
      | Some ps \<Rightarrow> take (nat k) (sortBy (partitionsBySize_Less pmm) ps))"

text \<open>
  Modelled from the spec: \<^verbatim>\<open>Mappings.Remove\<close> is not among the sources. Section 3:
  it drops the entry of the partition under the broker.
\<close>

definition Mappings_Remove :: "Mappings \<Rightarrow> int \<Rightarrow> Partition \<Rightarrow> Mappings" where
  "Mappings_Remove m i p =
     (case m i of
        None \<Rightarrow> m
      | Some ps \<Rightarrow> m(i \<mapsto> filter (\<lambda>q. \<not> (Topic q = Topic p \<and> Partition q = Partition p)) ps))"

text \<open>
  Modelled from the spec: \<^verbatim>\<open>BrokerMap.Mean\<close> is not among the sources. Section 4.1:
  the arithmetic mean of \<^verbatim>\<open>storage_free\<close> over the filtered list. The mean of no
  brokers is the float 0/0, a NaN, with which every comparison is false: it is
  \<open>None\<close> here.
\<close>

definition Mean :: "BrokerMap \<Rightarrow> real option" where
  "Mean b =
     (let fs = map (\<lambda>(k, br). StorageFree br) (filter (\<lambda>(k, br). ID br \<noteq> 0 \<and> \<not> Replace br) b)
      in if fs = [] then None else Some (sum_list fs / real (length fs)))"

text \<open>
  Modelled from the spec: \<^verbatim>\<open>BrokerMap.List\<close> and \<^verbatim>\<open>SortByStorage\<close> are not among
  the sources. Section 4.5, step 3a: a storage-sorted list of the brokers; it holds
  pointers.
\<close>

definition sortedByStorage :: "BrokerMap \<Rightarrow> int list" where
  "sortedByStorage b = map fst (sortBy byStorage b)"

text \<open>\<^verbatim>\<open>x > bound\<close> and \<^verbatim>\<open>x < bound\<close> for a bound that may be NaN.\<close>

definition above :: "real \<Rightarrow> real option \<Rightarrow> bool" where
  "above x bound = (case bound of None \<Rightarrow> False | Some l \<Rightarrow> x > l)"

definition below :: "real \<Rightarrow> real option \<Rightarrow> bool" where
  "below x bound = (case bound of None \<Rightarrow> False | Some l \<Rightarrow> x < l)"

text \<open>
  The fields of \<^verbatim>\<open>planRelocationsForBrokerParams\<close> that the function writes to:
  the maps are shared with the caller. What is printed under \<^verbatim>\<open>verbose\<close> is left out.
\<close>

record relocation =
  partition :: Partition
  destination :: int

record planState =
  st_relos :: "int \<rightharpoonup> relocation list"
  st_mappings :: Mappings
  st_brokers :: BrokerMap
  st_plan :: relocationPlan

text \<open>
  The choice of the destination for partition \<open>p\<close>: with \<^verbatim>\<open>locality-scoped\<close>, the
  first broker of the storage-sorted list in the locality of the source that is not
  the source; otherwise \<^verbatim>\<open>BestCandidate\<close> for the constraints of the replicas other
  than the source, its error dropped. The result is the pointer \<^verbatim>\<open>dest\<close> (nil is
  \<open>None\<close>), and the brokers and the generator as \<^verbatim>\<open>BestCandidate\<close> leaves them.
\<close>

fun firstInLocality :: "BrokerMap \<Rightarrow> string \<Rightarrow> int \<Rightarrow> int list \<Rightarrow> panic + int option" where
  "firstInLocality b targetLocality sourceID [] = Inr None"
| "firstInLocality b targetLocality sourceID (k # ks) =
     (case map_of b k of
        None \<Rightarrow> Inl NilPointerDereference
      | Some br \<Rightarrow>
          if Locality br = targetLocality \<and> ID br \<noteq> sourceID then Inr (Some k)
          else firstInLocality b targetLocality sourceID ks)"

definition chooseDest ::
  "'g stdlib \<Rightarrow> 'g \<Rightarrow> bool \<Rightarrow> int \<Rightarrow> string \<Rightarrow> BrokerMap \<Rightarrow> Partition \<Rightarrow>
     panic + (int option \<times> BrokerMap \<times> 'g)" where
  "chooseDest lib g localityScoped sourceID targetLocality b p =
     (let brokerList = sortedByStorage b in
      if localityScoped then
        (case firstInLocality b targetLocality sourceID brokerList of
           Inl e \<Rightarrow> Inl e
         | Inr d \<Rightarrow> Inr (d, b, g))
      else
        (case mergeConstraints (map (map_of b) (filter (\<lambda>i. i \<noteq> sourceID) (Replicas p))) of
           Inl e \<Rightarrow> Inl e
         | Inr c \<Rightarrow>
             (case bestCandidate lib g b brokerList c ''storage'' 0 of
                Inl e \<Rightarrow> Inl e
              | Inr (Inl err, b', g') \<Rightarrow> Inr (None, b', g')
              | Inr (Inr k, b', g') \<Rightarrow> Inr (Some k, b', g'))))"

text \<open>
  The commit of a move of \<open>p\<close> to the broker behind \<open>dest\<close>, whose ID is \<open>destID\<close>:
  the lines from \<^verbatim>\<open>relos[sourceID] = append(...)\<close> to \<^verbatim>\<open>mappings.Remove\<close>. The two
  writes to \<^verbatim>\<open>StorageFree\<close> go through \<^verbatim>\<open>brokers[sourceID]\<close> and \<^verbatim>\<open>brokers[dest.ID]\<close>
  in this order.
\<close>

definition commitMove ::
  "int \<Rightarrow> Partition \<Rightarrow> int \<Rightarrow> real \<Rightarrow> real \<Rightarrow> planState \<Rightarrow> panic + planState" where
  "commitMove sourceID p destID sourceFree destFree st =
     (let b1 = bm_update (st_brokers st) sourceID (\<lambda>br. br\<lparr>StorageFree := sourceFree\<rparr>) in
      case map_of b1 destID of
        None \<Rightarrow> Inl NilPointerDereference
      | Some d \<Rightarrow>
          Inr (st\<lparr>st_relos := (st_relos st)(sourceID \<mapsto>
                      (case st_relos st sourceID of None \<Rightarrow> [] | Some rs \<Rightarrow> rs) @
                      [\<lparr>partition = p, destination = destID\<rparr>]),
                  st_plan := plan_add (st_plan st) p (sourceID, destID),
                  st_brokers := bm_update b1 destID (\<lambda>br. br\<lparr>StorageFree := destFree\<rparr>),
                  st_mappings := Mappings_Remove (st_mappings st) sourceID p\<rparr>))"

text \<open>
  The loop over \<^verbatim>\<open>topPartn\<close>. The result is \<^verbatim>\<open>reloCount\<close>: the loop returns 0 when
  there is no destination or no partition left, and breaks after the first commit.
\<close>

fun planLoop ::
  "'g stdlib \<Rightarrow> bool \<Rightarrow> PartitionMetaMap \<Rightarrow> int \<Rightarrow> string \<Rightarrow> real option \<Rightarrow> real option \<Rightarrow>
     Partition list \<Rightarrow> 'g \<Rightarrow> planState \<Rightarrow> panic + ((int \<times> planState) \<times> 'g)" where
  "planLoop lib localityScoped partitionMeta sourceID targetLocality sLim dLim [] g st =
     Inr ((0, st), g)"
| "planLoop lib localityScoped partitionMeta sourceID targetLocality sLim dLim (p # rest) g st =
     (let pSize = fst (pmm_Size partitionMeta p) in
      case chooseDest lib g localityScoped sourceID targetLocality (st_brokers st) p of
        Inl e \<Rightarrow> Inl e
      | Inr (None, b', g') \<Rightarrow> Inr ((0, st\<lparr>st_brokers := b'\<rparr>), g')
      | Inr (Some dest, b', g') \<Rightarrow>
          (case map_of b' sourceID of
             None \<Rightarrow> Inl NilPointerDereference
           | Some src \<Rightarrow>
               (case map_of b' dest of
                  None \<Rightarrow> Inl NilPointerDereference
                | Some d \<Rightarrow>
                    (let sourceFree = StorageFree src + pSize;
                         destFree = StorageFree d - pSize
                     in
                     if above sourceFree sLim then
                       planLoop lib localityScoped partitionMeta sourceID targetLocality sLim dLim
                         rest g' (st\<lparr>st_brokers := b'\<rparr>)
                     else if below destFree dLim then
                       planLoop lib localityScoped partitionMeta sourceID targetLocality sLim dLim
                         rest g' (st\<lparr>st_brokers := b'\<rparr>)
                     else
                       (case commitMove sourceID p (ID d) sourceFree destFree
                               (st\<lparr>st_brokers := b'\<rparr>) of
                          Inl e \<Rightarrow> Inl e
                        | Inr st' \<Rightarrow> Inr ((1, st'), g'))))))"

text \<open>
  \<^verbatim>\<open>planRelocationsForBroker\<close>; \<open>tolerance\<close> and \<open>localityScoped\<close> are the flags of
  the command.
\<close>

definition planRelocationsForBroker ::
  "'g stdlib \<Rightarrow> real \<Rightarrow> bool \<Rightarrow> int \<Rightarrow> int \<Rightarrow> PartitionMetaMap \<Rightarrow> 'g \<Rightarrow> planState \<Rightarrow>
     panic + ((int \<times> planState) \<times> 'g)" where
  "planRelocationsForBroker lib tolerance localityScoped sourceID topPartitionsLimit partitionMeta g st =
     (let meanStorageFree = Mean (st_brokers st);
          topPartn = LargestPartitions (st_mappings st) sourceID topPartitionsLimit partitionMeta
      in
      case map_of (st_brokers st) sourceID of
        None \<Rightarrow> Inl NilPointerDereference
      | Some src \<Rightarrow>
          planLoop lib localityScoped partitionMeta sourceID (Locality src)
            (map_option (\<lambda>m. m * (1 + tolerance)) meanStorageFree)
            (map_option (\<lambda>m. m * (1 - tolerance)) meanStorageFree)
            topPartn g st)"

section \<open>Well-formed broker maps\<close>

text \<open>
  A Go map has one entry per key, and the package stores every broker under its own
  ID. \<open>flagView\<close> is what the placement loops read of a broker map and never write:
  which keys are present, and the ID and the replace flag stored under each.
\<close>

definition wellFormed :: "BrokerMap \<Rightarrow> bool" where
  "wellFormed b \<longleftrightarrow> distinct (map fst b) \<and> list_all (\<lambda>(k, br). ID br = k) b"

definition flagView :: "BrokerMap \<Rightarrow> int \<Rightarrow> (int \<times> bool) option" where
  "flagView b k = map_option (\<lambda>br. (ID br, Replace br)) (map_of b k)"

text \<open>The broker ID \<open>k\<close> refers to a broker of the map whose replace flag is false.\<close>

definition unreplaced :: "BrokerMap \<Rightarrow> int \<Rightarrow> bool" where
  "unreplaced b k \<longleftrightarrow> (case map_of b k of None \<Rightarrow> False | Some br \<Rightarrow> \<not> Replace br)"

definition allUnreplaced :: "BrokerMap \<Rightarrow> Partition list \<Rightarrow> bool" where
  "allUnreplaced b ps \<longleftrightarrow> list_all (\<lambda>p. list_all (unreplaced b) (Replicas p)) ps"


section \<open>Reference inputs\<close>

text \<open>
  An instance of the library parameters, used to run the model on concrete inputs:
  an insertion sort, a generator whose state is a counter, a shuffle that reverses on
  even states, and a decoder that knows the text \<^verbatim>\<open>null\<close> and one document.
\<close>

definition dq :: string where
  "dq = [CHR 0x22]"

definition sampleText :: string where
  "sampleText =
     ''{'' @ dq @ ''partitions'' @ dq @ '':[{'' @ dq @ ''topic'' @ dq @ '':'' @ dq @ ''t'' @ dq @ '','' @
     dq @ ''partition'' @ dq @ '':1,'' @ dq @ ''replicas'' @ dq @ '':[1002,1001]},{'' @
     dq @ ''topic'' @ dq @ '':'' @ dq @ ''t'' @ dq @ '','' @
     dq @ ''partition'' @ dq @ '':0,'' @ dq @ ''replicas'' @ dq @ '':[1001,1002]}]}''"

definition refLib :: "nat stdlib" where
  "refLib =
     \<lparr>sort_Sort = sortBy,
      rand_Seed = (\<lambda>s. nat \<bar>s\<bar>),
      rand_Shuffle = (\<lambda>g xs. (if even g then rev xs else xs, Suc g)),
      json_Unmarshal = (\<lambda>s pm.
         if s = ''null'' then Inr None
         else if s = sampleText then
           Inr (Some (pm\<lparr>Partitions :=
             [\<lparr>Topic = ''t'', Partition = 1, Replicas = [1002, 1001]\<rparr>,
              \<lparr>Topic = ''t'', Partition = 0, Replicas = [1001, 1002]\<rparr>]\<rparr>))
         else Inl ''invalid character'')\<rparr>"

definition mkBroker :: "int \<Rightarrow> string \<Rightarrow> int \<Rightarrow> real \<Rightarrow> bool \<Rightarrow> int \<times> Broker" where
  "mkBroker i l u s r =
     (i, \<lparr>ID = i, Locality = l, Tags = [], Used = u, StorageFree = s,
          New = False, Missing = False, OldMissing = False, Replace = r\<rparr>)"



definition pmMixed :: PartitionMap where
  "pmMixed = \<lparr>Version = 1, Partitions =
     [\<lparr>Topic = ''t'', Partition = 0, Replicas = [1001, 1002]\<rparr>,
      \<lparr>Topic = ''t'', Partition = 1, Replicas = [1001, 1002, 1003]\<rparr>,
      \<lparr>Topic = ''t'', Partition = 2, Replicas = [1001, 1002, 1003, 1004]\<rparr>]\<rparr>"

definition bmFour :: BrokerMap where
  "bmFour =
     [mkBroker 0 [] 0 0 True,
      mkBroker 1001 ''a'' 3 100 False,
      mkBroker 1002 ''b'' 3 200 False,
      mkBroker 1003 ''c'' 2 300 False,
      mkBroker 1004 ''a'' 2 400 False]"

definition pmUneven :: PartitionMap where
  "pmUneven = \<lparr>Version = 1, Partitions =
     [\<lparr>Topic = ''t'', Partition = 0, Replicas = [1001]\<rparr>,
      \<lparr>Topic = ''t'', Partition = 1, Replicas = [1001, 1002, 1003, 1004]\<rparr>]\<rparr>"

definition pmStub :: PartitionMap where
  "pmStub = \<lparr>Version = 1, Partitions =
     [\<lparr>Topic = ''t'', Partition = 0, Replicas = [0, 0]\<rparr>,
      \<lparr>Topic = ''t'', Partition = 1, Replicas = [0, 0]\<rparr>]\<rparr>"

definition bmRepl :: BrokerMap where
  "bmRepl =
     [mkBroker 0 [] 0 0 True,
      mkBroker 1001 ''a'' 3 100 False,
      mkBroker 1002 ''b'' 3 200 False,
      mkBroker 1003 ''c'' 2 50 True,
      mkBroker 1004 ''d'' 2 400 False]"

definition pmRepl :: PartitionMap where
  "pmRepl = \<lparr>Version = 1, Partitions =
     [\<lparr>Topic = ''t'', Partition = 1, Replicas = [1002, 1003]\<rparr>,
      \<lparr>Topic = ''t'', Partition = 0, Replicas = [1001, 1002, 1003]\<rparr>]\<rparr>"

definition pmmRepl :: PartitionMetaMap where
  "pmmRepl = [''t'' \<mapsto> [0 \<mapsto> \<lparr>Size = 30\<rparr>, 1 \<mapsto> \<lparr>Size = 35\<rparr>]]"

definition bmBal :: BrokerMap where
  "bmBal =
     [mkBroker 1001 ''a'' 1 190 False,
      mkBroker 1002 ''b'' 0 210 False,
      mkBroker 1003 ''c'' 1 200 False]"

definition stBal :: planState where
  "stBal =
     \<lparr>st_relos = Map.empty,
      st_mappings = [1001 \<mapsto> [\<lparr>Topic = ''t'', Partition = 0, Replicas = [1001, 1003]\<rparr>]],
      st_brokers = bmBal,
      st_plan = Map.empty\<rparr>"

definition pmmTen :: PartitionMetaMap where
  "pmmTen = [''t'' \<mapsto> [0 \<mapsto> \<lparr>Size = 10\<rparr>]]"


text \<open>
  What a call of \<^verbatim>\<open>planRelocationsForBroker\<close> shows of its outcome for two brokers:
  the count it returns and the free storage it leaves on each.
\<close>

definition storageFreeOf :: "BrokerMap \<Rightarrow> int \<Rightarrow> real option" where
  "storageFreeOf b k = map_option StorageFree (map_of b k)"

definition moveOutcome ::
  "panic + ((int \<times> planState) \<times> 'g) \<Rightarrow> int \<Rightarrow> int \<Rightarrow> panic + (int \<times> real option \<times> real option)" where
  "moveOutcome r s d =
     (case r of
        Inl e \<Rightarrow> Inl e
      | Inr ((n, st), g) \<Rightarrow> Inr (n, storageFreeOf (st_brokers st) s, storageFreeOf (st_brokers st) d))"

definition stSelf :: planState where
  "stSelf =
     stBal\<lparr>st_mappings :=
       [1001 \<mapsto> [\<lparr>Topic = ''t'', Partition = 0, Replicas = [1001, 1002, 1003]\<rparr>]]\<rparr>"

section \<open>Properties of the partition map operations\<close>

subsection \<open>equal\<close>





subsection \<open>SetReplication\<close>

lemma setReplicationLoop_pos:
  "0 < r \<Longrightarrow> setReplicationLoop r ps =
     Inr (map (\<lambda>p. p\<lparr>Replicas := take (nat r) (Replicas p @ replicate (nat r - length (Replicas p)) 0)\<rparr>) ps)"
proof (induction ps)
  case Nil
  then show ?case by simp
next
  case (Cons p ps)
  then show ?case
    by (auto simp: Let_def nat_diff_distrib' nat_less_iff)
qed

text \<open>
  Claim C7. \<^verbatim>\<open>SetReplication(0)\<close> leaves the map as it is. For \<open>r > 0\<close> the call
  returns; the version, the number of partitions, and the topic and index of every
  partition are unchanged; every replica set has length \<open>r\<close>: a set of at least \<open>r\<close>
  replicas is cut to its first \<open>r\<close>, a shorter one is extended with stub ID 0.
\<close>

theorem SetReplication_length:
  "SetReplication 0 pm = Inr pm \<and>
   (0 < r \<longrightarrow>
     (\<exists>pm'. SetReplication r pm = Inr pm' \<and>
        Version pm' = Version pm \<and>
        length (Partitions pm') = length (Partitions pm) \<and>
        (\<forall>i < length (Partitions pm).
           Topic (Partitions pm' ! i) = Topic (Partitions pm ! i) \<and>
           Partition (Partitions pm' ! i) = Partition (Partitions pm ! i) \<and>
           int (length (Replicas (Partitions pm' ! i))) = r \<and>
           (int (length (Replicas (Partitions pm ! i))) \<ge> r \<longrightarrow>
              Replicas (Partitions pm' ! i) = take (nat r) (Replicas (Partitions pm ! i))) \<and>
           (int (length (Replicas (Partitions pm ! i))) < r \<longrightarrow>
              Replicas (Partitions pm' ! i) =
                Replicas (Partitions pm ! i) @
                replicate (nat r - length (Replicas (Partitions pm ! i))) 0))))"
  by (auto simp: SetReplication_def setReplicationLoop_pos)

theorem SetReplication_length_witness:
  "(0::int) < 3 \<and>
   SetReplication 3 pmMixed =
     Inr \<lparr>Version = 1, Partitions =
        [\<lparr>Topic = ''t'', Partition = 0, Replicas = [1001, 1002, 0]\<rparr>,
         \<lparr>Topic = ''t'', Partition = 1, Replicas = [1001, 1002, 1003]\<rparr>,
         \<lparr>Topic = ''t'', Partition = 2, Replicas = [1001, 1002, 1003]\<rparr>]\<rparr>"
  using SetReplication_length [of pmMixed 3]
  by (simp add: SetReplication_def pmMixed_def)

section \<open>Properties of applying a relocation plan\<close>






section \<open>Properties of Rebuild\<close>

subsection \<open>The reference library meets the documented contract\<close>

lemma mset_insertBy: "mset (insertBy lt x xs) = add_mset x (mset xs)"
  by (induction xs) auto

lemma mset_sortBy: "mset (sortBy lt xs) = mset xs"
  by (induction xs) (auto simp: sortBy_def mset_insertBy)

lemma set_sortBy: "set (sortBy lt xs) = set xs"
  using mset_sortBy [of lt xs] by (metis set_mset_mset)

lemma not_Less_iff:
  "(\<not> partitionList_Less b a) \<longleftrightarrow>
     (Topic a < Topic b \<or> (Topic a = Topic b \<and> Partition a \<le> Partition b))"
  by (auto simp: partitionList_Less_def)

lemma canonical_iff: "canonical ps \<longleftrightarrow> sorted_wrt (\<lambda>a b. \<not> partitionList_Less b a) ps"
  unfolding canonical_def not_Less_iff ..

lemma sorted_insertBy:
  "sorted_wrt (\<lambda>a b. \<not> partitionList_Less b a) xs \<Longrightarrow>
   sorted_wrt (\<lambda>a b. \<not> partitionList_Less b a) (insertBy partitionList_Less x xs)"
proof (induction xs)
  case Nil
  then show ?case by simp
next
  case (Cons y ys)
  have set_ins: "set (insertBy partitionList_Less x ys) = insert x (set ys)"
    using mset_insertBy [of partitionList_Less x ys]
    by (metis set_mset_add_mset_insert set_mset_mset)
  show ?case
  proof (cases "partitionList_Less y x")
    case True
    then have "\<not> partitionList_Less x y"
      by (auto simp: partitionList_Less_def split: if_splits)
    with True Cons set_ins show ?thesis by auto
  next
    case False
    have "\<not> partitionList_Less z x" if "z \<in> set ys" for z
    proof -
      from Cons.prems that have "\<not> partitionList_Less z y" by auto
      with False show ?thesis
        unfolding not_Less_iff by auto
    qed
    with False Cons show ?thesis by auto
  qed
qed

lemma sorted_sortBy:
  "sorted_wrt (\<lambda>a b. \<not> partitionList_Less b a) (sortBy partitionList_Less xs)"
proof (induction xs)
  case Nil
  then show ?case by (simp add: sortBy_def)
next
  case (Cons x xs)
  then show ?case using sorted_insertBy [of "sortBy partitionList_Less xs" x]
    by (simp add: sortBy_def)
qed

lemma refLib_ok: "stdlib_ok refLib"
  by (simp add: stdlib_ok_def refLib_def mset_sortBy sorted_sortBy)

subsection \<open>Invalid strategy\<close>

text \<open>
  Claim C6. For a strategy other than \<^verbatim>\<open>count\<close> and \<^verbatim>\<open>storage\<close>, \<^verbatim>\<open>Rebuild\<close> returns a
  nil map and exactly one error string, which names the strategy; the receiver, the
  brokers and the generator are as before the call.
\<close>

theorem Rebuild_invalid_strategy:
  "strategy \<noteq> ''count'' \<Longrightarrow> strategy \<noteq> ''storage'' \<Longrightarrow>
   Rebuild lib g pm b pmm strategy =
     Inr ((None, [''Invalid rebuild strategy '' @ [CHR 0x27] @ strategy @ [CHR 0x27]]), pm, b, g)"
  by (simp add: Rebuild_def)

theorem Rebuild_invalid_strategy_witness:
  "''Count'' \<noteq> ''count'' \<and> ''Count'' \<noteq> ''storage'' \<and>
   Rebuild refLib 0 pmMixed [] Map.empty ''Count'' =
     Inr ((None, [''Invalid rebuild strategy '' @ [CHR 0x27] @ ''Count'' @ [CHR 0x27]]),
          pmMixed, [], 0)"
  using Rebuild_invalid_strategy [of "''Count''" refLib 0 pmMixed "[]" Map.empty]
  by simp

subsection \<open>PartitionMapFromString\<close>

text \<open>
  Claim C10. With a library that keeps its contract, every map that
  \<^verbatim>\<open>PartitionMapFromString\<close> returns is in canonical order (topic ascending, then
  partition index ascending), whatever the order of the decoded entries: it holds
  the decoded partitions, permuted, under the decoded version.
\<close>

theorem PartitionMapFromString_canonical:
  "stdlib_ok lib \<Longrightarrow> PartitionMapFromString lib s = Inr (Inr pm) \<Longrightarrow>
     canonical (Partitions pm) \<and>
     (\<exists>pm0. json_Unmarshal lib s NewPartitionMap = Inr (Some pm0) \<and>
            Version pm = Version pm0 \<and> mset (Partitions pm) = mset (Partitions pm0))"
  by (auto simp: PartitionMapFromString_def canonical_iff stdlib_ok_def
        split: sum.splits option.splits)

theorem PartitionMapFromString_canonical_witness:
  "stdlib_ok refLib \<and>
   PartitionMapFromString refLib sampleText =
     Inr (Inr \<lparr>Version = 1, Partitions =
       [\<lparr>Topic = ''t'', Partition = 0, Replicas = [1001, 1002]\<rparr>,
        \<lparr>Topic = ''t'', Partition = 1, Replicas = [1002, 1001]\<rparr>]\<rparr>) \<and>
   canonical
       [\<lparr>Topic = ''t'', Partition = 0, Replicas = [1001, 1002]\<rparr>,
        \<lparr>Topic = ''t'', Partition = 1, Replicas = [1002, 1001]\<rparr>]"
proof -
  have run: "PartitionMapFromString refLib sampleText =
     Inr (Inr \<lparr>Version = 1, Partitions =
       [\<lparr>Topic = ''t'', Partition = 0, Replicas = [1001, 1002]\<rparr>,
        \<lparr>Topic = ''t'', Partition = 1, Replicas = [1002, 1001]\<rparr>]\<rparr>)"
    by (simp add: PartitionMapFromString_def refLib_def sampleText_def dq_def NewPartitionMap_def
          sortBy_def partitionList_Less_def)
  from PartitionMapFromString_canonical [OF refLib_ok run] refLib_ok run
  show ?thesis by simp
qed

subsection \<open>Choosing a replacement broker\<close>

lemma map_of_bm_update:
  "map_of (bm_update b k f) x = (if x = k then map_option f (map_of b x) else map_of b x)"
  by (induction b) (auto simp: bm_update_def)

lemma flagView_bm_update:
  "flagView (bm_update b k (\<lambda>br. br\<lparr>StorageFree := h br\<rparr>)) = flagView b"
  by (rule ext) (simp add: flagView_def map_of_bm_update option.map_comp comp_def)

lemma derefAll_keys: "derefAll b ks = Inr bs \<Longrightarrow> map fst bs = ks"
  by (induction ks arbitrary: bs) (auto split: option.splits sum.splits)

lemma derefAll_panic: "derefAll b ks = Inl e \<Longrightarrow> e = NilPointerDereference"
  by (induction ks) (auto split: option.splits sum.splits)

lemma concat_groupsByUsed: "concat (groupsByUsed xs) = xs"
  by (induction xs) (auto split: list.splits)

lemma set_shuffleGroups:
  "stdlib_ok lib \<Longrightarrow> set (fst (shuffleGroups lib grps g)) = set (concat grps)"
proof (induction grps arbitrary: g)
  case Nil
  then show ?case by simp
next
  case (Cons grp grps)
  obtain grp' g1 where s1: "rand_Shuffle lib g grp = (grp', g1)" by (cases "rand_Shuffle lib g grp")
  obtain rest g2 where s2: "shuffleGroups lib grps g1 = (rest, g2)"
    by (cases "shuffleGroups lib grps g1")
  from Cons.prems have "mset (fst (rand_Shuffle lib g grp)) = mset grp"
    unfolding stdlib_ok_def by blast
  then have "set (fst (rand_Shuffle lib g grp)) = set grp" by (metis set_mset_mset)
  with s1 have a: "set grp' = set grp" by simp
  from Cons.IH [OF Cons.prems, of g1] s2 have b: "set rest = set (concat grps)" by simp
  from s1 s2 a b show ?case by simp
qed

lemma set_pseudoShuffle:
  "stdlib_ok lib \<Longrightarrow> set (fst (pseudoShuffle lib seed bs)) = fst ` set bs"
proof -
  assume ok: "stdlib_ok lib"
  have "concat (map (map fst) (groupsByUsed (sortBy byCount bs))) = map fst (sortBy byCount bs)"
    by (metis concat_groupsByUsed map_concat)
  then have "set (concat (map (map fst) (groupsByUsed (sortBy byCount bs)))) = fst ` set bs"
    by (simp only: set_map set_sortBy)
  with set_shuffleGroups [OF ok] show ?thesis
    by (simp only: pseudoShuffle_def)
qed

lemma firstPassing_mem: "firstPassing c b ks = Some k \<Longrightarrow> k \<in> set ks"
  by (induction ks) (auto split: option.splits if_splits)

lemma bestCandidate_panic:
  "bestCandidate lib g b bl c by seed = Inl e \<Longrightarrow> e = NilPointerDereference"
  by (auto simp: bestCandidate_def derefAll_panic split: sum.splits prod.splits option.splits)

lemma bestCandidate_flags:
  "bestCandidate lib g b bl c by seed = Inr (r, b', g') \<Longrightarrow> flagView b' = flagView b"
  by (auto simp: bestCandidate_def flagView_bm_update split: sum.splits prod.splits option.splits)

lemma bestCandidate_mem:
  assumes "stdlib_ok lib" "bestCandidate lib g b bl c by seed = Inr (Inr k, b', g')"
  shows "k \<in> set bl"
proof -
  from assms(2) obtain bs ranked g1 where
    d: "derefAll b bl = Inr bs" and
    r: "(if by = ''count'' then pseudoShuffle lib seed bs else (map fst (sortBy byStorage bs), g)) = (ranked, g1)" and
    f: "firstPassing c b ranked = Some k"
    by (auto simp: bestCandidate_def split: sum.splits prod.splits option.splits)
  from r have "set ranked = fst ` set bs"
    using set_pseudoShuffle [OF assms(1), of seed bs]
    by (force simp: set_sortBy split: if_splits)
  also have "\<dots> = set bl" using derefAll_keys [OF d] by (metis set_map)
  finally show ?thesis using firstPassing_mem [OF f] by simp
qed

lemma findReplacement_panic:
  "findReplacement lib g b bl pmm strategy partn c seed = Inl e \<Longrightarrow> e = NilPointerDereference"
  by (auto simp: findReplacement_def split: sum.splits prod.splits option.splits if_splits
        dest: bestCandidate_panic)

lemma findReplacement_flags:
  "findReplacement lib g b bl pmm strategy partn c seed = Inr (r, b', g') \<Longrightarrow> flagView b' = flagView b"
  by (auto simp: findReplacement_def split: sum.splits prod.splits option.splits if_splits
        dest: bestCandidate_flags)

lemma findReplacement_mem:
  assumes "stdlib_ok lib"
    "findReplacement lib g b bl pmm strategy partn c seed = Inr (Inr newID, b', g')"
  shows "\<exists>k \<in> set bl. \<exists>r. flagView b' k = Some (newID, r)"
  using assms
  by (auto simp: findReplacement_def flagView_def split: sum.splits prod.splits option.splits if_splits
        dest!: bestCandidate_mem)

lemma mergeConstraints_panic: "mergeConstraints rs = Inl e \<Longrightarrow> e = NilPointerDereference"
proof -
  have "mergeLoop rs c = Inl e \<Longrightarrow> e = NilPointerDereference" for c
    by (induction rs c rule: mergeLoop.induct) (auto split: if_splits)
  then show "mergeConstraints rs = Inl e \<Longrightarrow> e = NilPointerDereference"
    by (simp add: mergeConstraints_def)
qed

subsection \<open>Broker IDs without an entry in the broker map\<close>

lemma flagView_None: "flagView b' = flagView b \<Longrightarrow> map_of b' k = None \<longleftrightarrow> map_of b k = None"
  by (metis flagView_def option.map_disc_iff)

lemma partitionReplicas_panic:
  "partitionReplicas lib bl pmm strategy partn rs g st = Inl e \<Longrightarrow> e = NilPointerDereference"
proof (induction rs arbitrary: g st)
  case Nil
  then show ?case by simp
next
  case (Cons bid rs)
  then show ?case
    by (auto split: option.splits if_splits sum.splits prod.splits
          dest: mergeConstraints_panic findReplacement_panic)
qed

lemma partitionReplicas_flags:
  "partitionReplicas lib bl pmm strategy partn rs g st = Inr (st', g') \<Longrightarrow>
     flagView (bmap st') = flagView (bmap st)"
proof (induction rs arbitrary: g st)
  case Nil
  then show ?case by simp
next
  case (Cons bid rs)
  then show ?case
    by (fastforce split: option.splits if_splits sum.splits prod.splits
          dest: findReplacement_flags)
qed

lemma partitionReplicas_missing:
  "\<exists>bid \<in> set rs. map_of (bmap st) bid = None \<Longrightarrow>
     partitionReplicas lib bl pmm strategy partn rs g st = Inl NilPointerDereference"
proof (induction rs arbitrary: g st)
  case Nil
  then show ?case by simp
next
  case (Cons bid rs)
  show ?case
  proof (cases "map_of (bmap st) bid")
    case None
    then show ?thesis by simp
  next
    case (Some b)
    with Cons.prems have rest: "\<exists>bid \<in> set rs. map_of (bmap st) bid = None" by auto
    show ?thesis
    proof (cases "partitionReplicas lib bl pmm strategy partn (bid # rs) g st")
      case (Inl e)
      with partitionReplicas_panic show ?thesis by metis
    next
      case (Inr r)
      have False
      proof (cases "Replace b")
        case False
        with Some Inr Cons.IH [of "st\<lparr>newPartn := (newPartn st)\<lparr>Replicas := Replicas (newPartn st) @ [bid]\<rparr>\<rparr>" g] rest
        show False by simp
      next
        case True
        with Some Inr obtain c x b' g' where
          m: "mergeConstraints (map (map_of (bmap st)) (Replicas partn) @
                     map (map_of (bmap st)) (Replicas (newPartn st))) = Inr c" and
          f: "findReplacement lib g (bmap st) bl pmm strategy partn c 1 = Inr (x, b', g')"
          by (auto split: sum.splits)
        from findReplacement_flags [OF f] rest
        have rest': "\<exists>bid \<in> set rs. map_of b' bid = None"
          using flagView_None by metis
        show False
        proof (cases x)
          case (Inl err)
          with True Some Inr m f
            Cons.IH [of "st\<lparr>errs := errs st @ [err], bmap := b'\<rparr>" g'] rest'
          show False by simp
        next
          case (Inr newID)
          with True Some \<open>partitionReplicas lib bl pmm strategy partn (bid # rs) g st = Inr r\<close> m f
            Cons.IH [of "st\<lparr>newPartn := (newPartn st)\<lparr>Replicas := Replicas (newPartn st) @ [newID]\<rparr>,
                            bmap := b'\<rparr>" g'] rest'
          show False by simp
        qed
      qed
      then show ?thesis ..
    qed
  qed
qed

lemma partitionLoop_missing:
  "\<exists>p \<in> set parts. \<exists>bid \<in> set (Replicas p). map_of (bmap st) bid = None \<Longrightarrow>
     partitionLoop lib bl pmm strategy parts g st = Inl NilPointerDereference"
proof (induction parts arbitrary: g st)
  case Nil
  then show ?case by simp
next
  case (Cons p ps)
  show ?case
  proof (cases "\<exists>bid \<in> set (Replicas p). map_of (bmap st) bid = None")
    case True
    then show ?thesis
      by (simp add: partitionReplicas_missing)
  next
    case False
    with Cons.prems have rest: "\<exists>p \<in> set ps. \<exists>bid \<in> set (Replicas p). map_of (bmap st) bid = None"
      by auto
    show ?thesis
    proof (cases "partitionReplicas lib bl pmm strategy p (Replicas p) g
             \<lparr>newMap = newMap st, errs = errs st, bmap = bmap st,
              newPartn = \<lparr>Topic = Topic p, Partition = Partition p, Replicas = []\<rparr>\<rparr>")
      case (Inl e)
      with partitionReplicas_panic [OF Inl] show ?thesis by simp
    next
      case (Inr r)
      obtain st' g' where r: "r = (st', g')" by (cases r)
      from partitionReplicas_flags [OF Inr [unfolded r]]
      have "flagView (bmap st') = flagView (bmap st)" by simp
      with rest have "\<exists>p \<in> set ps. \<exists>bid \<in> set (Replicas p). map_of (bmap st') bid = None"
        using flagView_None by metis
      from Cons.IH [of "\<lparr>newMap = (newMap st')\<lparr>Partitions := Partitions (newMap st') @ [newPartn st']\<rparr>,
             errs = errs st', bmap = bmap st'\<rparr>" g'] this Inr r
      show ?thesis by simp
    qed
  qed
qed

lemma positionStep_first_pass:
  assumes "length (Partitions (newMap st)) = n"
  shows "(positionStep lib bl pmm strategy 0 n partn g st = Inl e \<longrightarrow> e = NilPointerDereference) \<and>
         (positionStep lib bl pmm strategy 0 n partn g st = Inr (st', g') \<longrightarrow>
            length (Partitions (newMap st')) = Suc n \<and> flagView (bmap st') = flagView (bmap st))"
  using assms
  by (auto simp: positionStep_def Let_def appendReplica_def
        split: option.splits if_splits sum.splits prod.splits
        dest: mergeConstraints_panic findReplacement_panic findReplacement_flags)

lemma positionStep_missing:
  assumes "Replicas partn \<noteq> []" "map_of (bmap st) (hd (Replicas partn)) = None"
  shows "positionStep lib bl pmm strategy 0 n partn g st = Inl NilPointerDereference"
  using assms by (cases "Replicas partn") (auto simp: positionStep_def Let_def)

lemma positionPass_missing:
  "length (Partitions (newMap st)) = n \<Longrightarrow>
   \<exists>p \<in> set parts. Replicas p \<noteq> [] \<and> map_of (bmap st) (hd (Replicas p)) = None \<Longrightarrow>
   positionPass lib bl pmm strategy 0 n parts g st = Inl NilPointerDereference"
proof (induction parts arbitrary: n g st)
  case Nil
  then show ?case by simp
next
  case (Cons p ps)
  show ?case
  proof (cases "positionStep lib bl pmm strategy 0 n p g st")
    case (Inl e')
    with positionStep_first_pass [OF Cons.prems(1), of lib bl pmm strategy p g e']
    show ?thesis by simp
  next
    case (Inr r)
    obtain st' g' where r: "r = (st', g')" by (cases r)
    from positionStep_first_pass [OF Cons.prems(1), of lib bl pmm strategy p g NilPointerDereference st' g'] Inr r
    have len: "length (Partitions (newMap st')) = Suc n" and
      fl: "flagView (bmap st') = flagView (bmap st)" by simp_all
    from Inr positionStep_missing [of p st lib bl pmm strategy n g]
    have "\<not> (Replicas p \<noteq> [] \<and> map_of (bmap st) (hd (Replicas p)) = None)" by auto
    with Cons.prems(2)
    have "\<exists>p \<in> set ps. Replicas p \<noteq> [] \<and> map_of (bmap st) (hd (Replicas p)) = None" by auto
    with fl have "\<exists>p \<in> set ps. Replicas p \<noteq> [] \<and> map_of (bmap st') (hd (Replicas p)) = None"
      using flagView_None by metis
    from Cons.IH [OF len this] Inr r show ?thesis by simp
  qed
qed

subsection \<open>Replica sets of different lengths under the count strategy\<close>

text \<open>
  Claim C3 at a concrete input. Two partitions, none of their brokers marked for
  replacement: partition 0 of topic t with replicas [1001], partition 1 with
  [1001, 1002, 1003, 1004]. The counter \<^verbatim>\<open>skipped\<close> is not reset between passes: it
  is 1 after pass 1 and 2 after pass 2, so the loop ends before index 3 of
  partition 1 is looked at. The new map has three replicas for partition 1 and
  there is no soft error.
\<close>

theorem placeByPosition_drops_replica:
  "placeByPosition lib g pmUneven bmFour pmm ''count'' =
     Inr (\<lparr>Version = 1, Partitions =
            [\<lparr>Topic = ''t'', Partition = 0, Replicas = [1001]\<rparr>,
             \<lparr>Topic = ''t'', Partition = 1, Replicas = [1001, 1002, 1003]\<rparr>]\<rparr>,
          [], bmFour, g)"
  by (simp add: placeByPosition_def positionLoop.simps positionStep_def appendReplica_def
        pmUneven_def bmFour_def mkBroker_def NewPartitionMap_def filteredList_def)

subsection \<open>No broker marked for replacement in the rebuilt map\<close>

lemma unreplaced_flagView: "unreplaced b k \<longleftrightarrow> (\<exists>i. flagView b k = Some (i, False))"
  by (auto simp: unreplaced_def flagView_def split: option.splits)

lemma unreplaced_cong: "flagView b' = flagView b \<Longrightarrow> unreplaced b' = unreplaced b"
  by (rule ext) (simp add: unreplaced_flagView)

lemma filteredList_good:
  assumes "wellFormed b0" "k \<in> set (filteredList b0)"
  shows "flagView b0 k = Some (k, False)"
proof -
  from assms(2) obtain br where br: "(k, br) \<in> set b0" "\<not> Replace br"
    by (auto simp: filteredList_def)
  from assms(1) br(1) have "map_of b0 k = Some br" "ID br = k"
    by (auto simp: wellFormed_def list_all_iff)
  with br(2) show ?thesis by (simp add: flagView_def)
qed

lemma newID_good:
  assumes "stdlib_ok lib" "wellFormed b0" "flagView b = flagView b0"
    "findReplacement lib g b (filteredList b0) pmm strategy partn c seed = Inr (Inr newID, b', g')"
  shows "unreplaced b0 newID"
proof -
  from findReplacement_mem [OF assms(1,4)] obtain k r where
    k: "k \<in> set (filteredList b0)" "flagView b' k = Some (newID, r)" by auto
  from findReplacement_flags [OF assms(4)] assms(3) have "flagView b' = flagView b0" by simp
  with k filteredList_good [OF assms(2) k(1)] show ?thesis
    by (simp add: unreplaced_flagView)
qed

lemma kept_good:
  "flagView b = flagView b0 \<Longrightarrow> map_of b bid = Some br \<Longrightarrow> \<not> Replace br \<Longrightarrow> unreplaced b0 bid"
  by (metis unreplaced_cong unreplaced_def option.simps(5))

lemma appendReplica_good:
  assumes "appendReplica n i m = Inr m'" "allUnreplaced b0 (Partitions m)" "unreplaced b0 i"
  shows "allUnreplaced b0 (Partitions m')"
proof -
  from assms(1) have n: "n < length (Partitions m)" and
    m': "Partitions m' = (Partitions m)[n := (Partitions m ! n)\<lparr>Replicas := Replicas (Partitions m ! n) @ [i]\<rparr>]"
    by (auto simp: appendReplica_def split: if_splits)
  from assms(2) n have "list_all (unreplaced b0) (Replicas (Partitions m ! n))"
    by (simp add: allUnreplaced_def list_all_length)
  with assms(2,3) show ?thesis
    unfolding m' allUnreplaced_def list_all_iff
    by (auto dest!: set_update_subset_insert [THEN subsetD])
qed

lemma positionStep_good:
  assumes "stdlib_ok lib" "wellFormed b0"
    "flagView (bmap st) = flagView b0" "allUnreplaced b0 (Partitions (newMap st))"
    "positionStep lib (filteredList b0) pmm strategy pass n partn g st = Inr (st', g')"
  shows "flagView (bmap st') = flagView b0 \<and> allUnreplaced b0 (Partitions (newMap st'))"
proof -
  define st1 where "st1 = (if pass = 0
                then st\<lparr>newMap := (newMap st)\<lparr>Partitions := Partitions (newMap st) @
                       [\<lparr>Topic = Topic partn, Partition = Partition partn, Replicas = []\<rparr>]\<rparr>\<rparr>
                else st)"
  have f1: "flagView (bmap st1) = flagView b0" and a1: "allUnreplaced b0 (Partitions (newMap st1))"
    using assms(3,4) by (auto simp: st1_def allUnreplaced_def)
  show ?thesis
  proof (cases "int pass > int (length (Replicas partn)) - 1")
    case True
    with assms(5) have "st' = st1\<lparr>skipped := skipped st1 + 1\<rparr>"
      by (simp add: positionStep_def st1_def Let_def)
    with f1 a1 show ?thesis by simp
  next
    case False
    with assms(5) obtain br where br: "map_of (bmap st1) (Replicas partn ! pass) = Some br"
      by (auto simp: positionStep_def st1_def [symmetric] Let_def split: option.splits)
    show ?thesis
    proof (cases "Replace br")
      case no: False
      with False br assms(5) obtain m where
        m: "appendReplica n (Replicas partn ! pass) (newMap st1) = Inr m" "st' = st1\<lparr>newMap := m\<rparr>"
        by (auto simp: positionStep_def st1_def [symmetric] Let_def split: sum.splits)
      from appendReplica_good [OF m(1) a1 kept_good [OF f1 br no]] m(2) f1
      show ?thesis by simp
    next
      case yes: True
      with False br assms(5) obtain c x b' where
        f: "findReplacement lib g (bmap st1) (filteredList b0) pmm strategy partn c
              (int pass * int n + 1) = Inr (x, b', g')" and
        r: "(case x of
               Inl err \<Rightarrow> Inr (st1\<lparr>errs := errs st1 @ [err], bmap := b'\<rparr>, g')
             | Inr newID \<Rightarrow>
                 (case appendReplica n newID (newMap st1) of
                    Inl e \<Rightarrow> Inl e
                  | Inr m \<Rightarrow> Inr (st1\<lparr>newMap := m, bmap := b'\<rparr>, g'))) = Inr (st', g')"
        by (auto simp: positionStep_def st1_def [symmetric] Let_def
              split: sum.splits if_splits prod.splits)
      from findReplacement_flags [OF f] f1 have fb: "flagView b' = flagView b0" by simp
      show ?thesis
      proof (cases x)
        case (Inl err)
        with r fb a1 show ?thesis by auto
      next
        case (Inr newID)
        with r obtain m where
          m: "appendReplica n newID (newMap st1) = Inr m" "st' = st1\<lparr>newMap := m, bmap := b'\<rparr>"
          by (auto split: sum.splits)
        from newID_good [OF assms(1,2) f1 f [unfolded Inr]]
        have "unreplaced b0 newID" .
        from appendReplica_good [OF m(1) a1 this] m(2) fb show ?thesis by simp
      qed
    qed
  qed
qed

lemma positionPass_good:
  assumes "stdlib_ok lib" "wellFormed b0"
  shows "flagView (bmap st) = flagView b0 \<Longrightarrow> allUnreplaced b0 (Partitions (newMap st)) \<Longrightarrow>
    positionPass lib (filteredList b0) pmm strategy pass n parts g st = Inr (st', g') \<Longrightarrow>
    flagView (bmap st') = flagView b0 \<and> allUnreplaced b0 (Partitions (newMap st'))"
proof (induction parts arbitrary: n g st)
  case Nil
  then show ?case by simp
next
  case (Cons p ps)
  from Cons.prems(3) obtain s1 g1 where
    s: "positionStep lib (filteredList b0) pmm strategy pass n p g st = Inr (s1, g1)" and
    r: "positionPass lib (filteredList b0) pmm strategy pass (Suc n) ps g1 s1 = Inr (st', g')"
    by (auto split: sum.splits)
  from positionStep_good [OF assms Cons.prems(1,2) s] Cons.IH [OF _ _ r]
  show ?case by simp
qed

lemma positionLoop_good:
  "stdlib_ok lib \<Longrightarrow> wellFormed b0 \<Longrightarrow> bl = filteredList b0 \<Longrightarrow>
    flagView (bmap st) = flagView b0 \<Longrightarrow> allUnreplaced b0 (Partitions (newMap st)) \<Longrightarrow>
    positionLoop lib bl pmm strategy parts pass g st = Inr (st', g') \<Longrightarrow>
    flagView (bmap st') = flagView b0 \<and> allUnreplaced b0 (Partitions (newMap st'))"
proof (induction lib bl pmm strategy parts pass g st rule: positionLoop.induct)
  case (1 lib bl pmm strategy parts pass g st)
  show ?case
  proof (cases "skipped st < length parts")
    case False
    with "1.prems" show ?thesis by (simp add: positionLoop.simps)
  next
    case True
    with "1.prems"(6) obtain s1 g1 where
      p: "positionPass lib bl pmm strategy pass 0 parts g st = Inr (s1, g1)" and
      r: "positionLoop lib bl pmm strategy parts (Suc pass) g1 s1 = Inr (st', g')"
      by (subst (asm) positionLoop.simps) (auto split: sum.splits)
    from positionPass_good [OF "1.prems"(1,2,4,5) p [unfolded "1.prems"(3)]]
    have "flagView (bmap s1) = flagView b0" "allUnreplaced b0 (Partitions (newMap s1))" by simp_all
    from "1.IH" [OF True p refl "1.prems"(1,2,3) this r] show ?thesis .
  qed
qed

lemma partitionReplicas_good:
  assumes "stdlib_ok lib" "wellFormed b0"
  shows "flagView (bmap st) = flagView b0 \<Longrightarrow> allUnreplaced b0 (Partitions (newMap st)) \<Longrightarrow>
    list_all (unreplaced b0) (Replicas (newPartn st)) \<Longrightarrow>
    partitionReplicas lib (filteredList b0) pmm strategy partn rs g st = Inr (st', g') \<Longrightarrow>
    flagView (bmap st') = flagView b0 \<and> newMap st' = newMap st \<and>
    list_all (unreplaced b0) (Replicas (newPartn st'))"
proof (induction rs arbitrary: g st)
  case Nil
  then show ?case by simp
next
  case (Cons bid rs)
  from Cons.prems(4) obtain br where br: "map_of (bmap st) bid = Some br"
    by (auto split: option.splits)
  show ?case
  proof (cases "Replace br")
    case False
    let ?st = "st\<lparr>newPartn := (newPartn st)\<lparr>Replicas := Replicas (newPartn st) @ [bid]\<rparr>\<rparr>"
    from False br Cons.prems(4)
    have r: "partitionReplicas lib (filteredList b0) pmm strategy partn rs g ?st = Inr (st', g')"
      by simp
    from kept_good [OF Cons.prems(1) br False] Cons.prems(3)
    have "list_all (unreplaced b0) (Replicas (newPartn ?st))" by simp
    from Cons.IH [OF _ _ this r] Cons.prems(1,2) show ?thesis by simp
  next
    case True
    with br Cons.prems(4) obtain c x b' g1 where
      f: "findReplacement lib g (bmap st) (filteredList b0) pmm strategy partn c 1 = Inr (x, b', g1)" and
      r: "(case x of
             Inl err \<Rightarrow> partitionReplicas lib (filteredList b0) pmm strategy partn rs g1
                        (st\<lparr>errs := errs st @ [err], bmap := b'\<rparr>)
           | Inr newID \<Rightarrow> partitionReplicas lib (filteredList b0) pmm strategy partn rs g1
                        (st\<lparr>newPartn := (newPartn st)\<lparr>Replicas := Replicas (newPartn st) @ [newID]\<rparr>,
                            bmap := b'\<rparr>)) = Inr (st', g')"
      by (auto split: sum.splits prod.splits)
    from findReplacement_flags [OF f] Cons.prems(1) have fb: "flagView b' = flagView b0" by simp
    show ?thesis
    proof (cases x)
      case (Inl err)
      with r have "partitionReplicas lib (filteredList b0) pmm strategy partn rs g1
                        (st\<lparr>errs := errs st @ [err], bmap := b'\<rparr>) = Inr (st', g')" by simp
      from Cons.IH [OF _ _ _ this] fb Cons.prems(2,3) show ?thesis by simp
    next
      case (Inr newID)
      from newID_good [OF assms Cons.prems(1) f [unfolded Inr]] have n: "unreplaced b0 newID" .
      from Inr r have "partitionReplicas lib (filteredList b0) pmm strategy partn rs g1
                        (st\<lparr>newPartn := (newPartn st)\<lparr>Replicas := Replicas (newPartn st) @ [newID]\<rparr>,
                            bmap := b'\<rparr>) = Inr (st', g')" by simp
      from Cons.IH [OF _ _ _ this] fb Cons.prems(2,3) n show ?thesis by simp
    qed
  qed
qed

lemma partitionLoop_good:
  assumes "stdlib_ok lib" "wellFormed b0"
  shows "flagView (bmap st) = flagView b0 \<Longrightarrow> allUnreplaced b0 (Partitions (newMap st)) \<Longrightarrow>
    partitionLoop lib (filteredList b0) pmm strategy parts g st = Inr (st', g') \<Longrightarrow>
    flagView (bmap st') = flagView b0 \<and> allUnreplaced b0 (Partitions (newMap st'))"
proof (induction parts arbitrary: g st)
  case Nil
  then show ?case by simp
next
  case (Cons p ps)
  let ?s0 = "\<lparr>newMap = newMap st, errs = errs st, bmap = bmap st,
              newPartn = \<lparr>Topic = Topic p, Partition = Partition p, Replicas = []\<rparr>\<rparr>"
  from Cons.prems(3) obtain s1 g1 where
    a: "partitionReplicas lib (filteredList b0) pmm strategy p (Replicas p) g ?s0 = Inr (s1, g1)" and
    r: "partitionLoop lib (filteredList b0) pmm strategy ps g1
            \<lparr>newMap = (newMap s1)\<lparr>Partitions := Partitions (newMap s1) @ [newPartn s1]\<rparr>,
             errs = errs s1, bmap = bmap s1\<rparr> = Inr (st', g')"
    by (auto split: sum.splits)
  from partitionReplicas_good [OF assms _ _ _ a] Cons.prems(1,2)
  have s1: "flagView (bmap s1) = flagView b0" "newMap s1 = newMap st"
    "list_all (unreplaced b0) (Replicas (newPartn s1))" by simp_all
  with Cons.prems(2) have "allUnreplaced b0 (Partitions (newMap s1) @ [newPartn s1])"
    by (simp add: allUnreplaced_def)
  from Cons.IH [OF _ _ r] this s1(1) show ?case by simp
qed

lemma shuffleLoop_good:
  "stdlib_ok lib \<Longrightarrow> allUnreplaced b0 ps \<Longrightarrow> allUnreplaced b0 (fst (shuffleLoop lib n ps g))"
proof (induction ps arbitrary: n g)
  case Nil
  then show ?case by simp
next
  case (Cons p ps)
  obtain rs g1 where s1: "rand_Shuffle lib (rand_Seed lib (push_bit 2 (int n))) (Replicas p) = (rs, g1)"
    by (cases "rand_Shuffle lib (rand_Seed lib (push_bit 2 (int n))) (Replicas p)")
  obtain ps' g2 where s2: "shuffleLoop lib (Suc n) ps g1 = (ps', g2)"
    by (cases "shuffleLoop lib (Suc n) ps g1")
  from Cons.prems(1)
  have "mset (fst (rand_Shuffle lib (rand_Seed lib (push_bit 2 (int n))) (Replicas p))) = mset (Replicas p)"
    unfolding stdlib_ok_def by blast
  then have "set (fst (rand_Shuffle lib (rand_Seed lib (push_bit 2 (int n))) (Replicas p))) = set (Replicas p)"
    by (metis set_mset_mset)
  with s1 have "set rs = set (Replicas p)" by simp
  with Cons.prems(2) have a: "list_all (unreplaced b0) rs"
    by (simp add: allUnreplaced_def list_all_iff)
  from Cons.IH [OF Cons.prems(1), of "Suc n" g1] Cons.prems(2) s2
  have b: "allUnreplaced b0 ps'" by (simp add: allUnreplaced_def)
  from a b s1 s2 show ?case by (simp add: allUnreplaced_def)
qed

lemma sort_good:
  "stdlib_ok lib \<Longrightarrow> allUnreplaced b0 ps \<Longrightarrow> allUnreplaced b0 (sort_Sort lib lt ps)"
proof -
  assume ok: "stdlib_ok lib" and a: "allUnreplaced b0 ps"
  from ok have "mset (sort_Sort lib lt ps) = mset ps" unfolding stdlib_ok_def by blast
  then have "set (sort_Sort lib lt ps) = set ps" by (metis set_mset_mset)
  with a show ?thesis by (simp add: allUnreplaced_def list_all_iff)
qed

text \<open>
  Claim C2. For a well-formed broker map and a library that keeps its contract, every
  broker ID in every replica set of the map that \<^verbatim>\<open>Rebuild\<close> returns (strategy
  \<^verbatim>\<open>count\<close> or \<^verbatim>\<open>storage\<close>; any other strategy returns no map) has an entry in the
  broker map, and the replace flag of that broker is false.
\<close>

theorem Rebuild_no_replaced_broker:
  assumes "stdlib_ok lib" "wellFormed b"
    "Rebuild lib g pm b pmm strategy = Inr ((Some m, es), pm', b', g')"
  shows "\<forall>p \<in> set (Partitions m). \<forall>bid \<in> set (Replicas p).
           \<exists>br. map_of b bid = Some br \<and> \<not> Replace br"
proof -
  have init: "flagView (bmap \<lparr>newMap = NewPartitionMap, errs = [], bmap = b\<rparr>) = flagView b"
    "allUnreplaced b (Partitions (newMap \<lparr>newMap = NewPartitionMap, errs = [], bmap = b\<rparr>))"
    by (simp_all add: NewPartitionMap_def allUnreplaced_def)
  have init': "flagView (bmap \<lparr>newMap = NewPartitionMap, errs = [], bmap = b, skipped = 0\<rparr>) = flagView b"
    "allUnreplaced b (Partitions (newMap \<lparr>newMap = NewPartitionMap, errs = [], bmap = b, skipped = 0\<rparr>))"
    by (simp_all add: NewPartitionMap_def allUnreplaced_def)
  have "allUnreplaced b (Partitions m)"
  proof (cases "strategy = ''count''")
    case True
    with assms(3) obtain st g1 where
      l: "positionLoop lib (filteredList b) pmm strategy
            (sort_Sort lib partitionList_Less (Partitions pm)) 0 g
            \<lparr>newMap = NewPartitionMap, errs = [], bmap = b, skipped = 0\<rparr> = Inr (st, g1)" and
      m: "m = (newMap st)\<lparr>Partitions := sort_Sort lib partitionList_Less (Partitions (newMap st))\<rparr>"
      by (auto simp: Rebuild_def placeByPosition_def Let_def split: sum.splits prod.splits)
    from positionLoop_good [OF assms(1,2) refl init' l]
    have "allUnreplaced b (Partitions (newMap st))" by simp
    from sort_good [OF assms(1) this] m show ?thesis by simp
  next
    case False
    with assms(3) have s: "strategy = ''storage''"
      by (auto simp: Rebuild_def split: if_splits)
    with assms(3) obtain st g1 m1 g2 where
      l: "partitionLoop lib (filteredList b) pmm strategy
            (sort_Sort lib (partitionsBySize_Less pmm) (Partitions pm)) g
            \<lparr>newMap = NewPartitionMap, errs = [], bmap = b\<rparr> = Inr (st, g1)" and
      sh: "shuffle lib g1 (newMap st) = (m1, g2)" and
      m: "m = m1\<lparr>Partitions := sort_Sort lib partitionList_Less (Partitions m1)\<rparr>"
      by (auto simp: Rebuild_def placeByPartition_def Let_def split: sum.splits prod.splits)
    from partitionLoop_good [OF assms(1,2) init l]
    have "allUnreplaced b (Partitions (newMap st))" by simp
    from shuffleLoop_good [OF assms(1) this, of 0 g1] sh
    have "allUnreplaced b (Partitions m1)"
      by (auto simp: shuffle_def split: prod.splits)
    from sort_good [OF assms(1) this] m show ?thesis by simp
  qed
  then show ?thesis
    by (fastforce simp: allUnreplaced_def list_all_iff unreplaced_def split: option.splits)
qed

lemma wellFormed_bmRepl: "wellFormed bmRepl"
  by (simp add: wellFormed_def bmRepl_def mkBroker_def)

theorem Rebuild_no_replaced_broker_witness:
  "stdlib_ok refLib \<and> wellFormed bmRepl \<and>
   map_sum id fst (Rebuild refLib 0 pmRepl bmRepl pmmRepl ''storage'') =
     Inr (Some \<lparr>Version = 1, Partitions =
             [\<lparr>Topic = ''t'', Partition = 0, Replicas = [1004, 1002, 1001]\<rparr>,
              \<lparr>Topic = ''t'', Partition = 1, Replicas = [1004, 1002]\<rparr>]\<rparr>, []) \<and>
   allUnreplaced bmRepl
     [\<lparr>Topic = ''t'', Partition = 0, Replicas = [1004, 1002, 1001]\<rparr>,
      \<lparr>Topic = ''t'', Partition = 1, Replicas = [1004, 1002]\<rparr>]"
proof -
  have r: "map_sum id fst (Rebuild refLib 0 pmRepl bmRepl pmmRepl ''storage'') =
     Inr (Some \<lparr>Version = 1, Partitions =
             [\<lparr>Topic = ''t'', Partition = 0, Replicas = [1004, 1002, 1001]\<rparr>,
              \<lparr>Topic = ''t'', Partition = 1, Replicas = [1004, 1002]\<rparr>]\<rparr>, [])"
    by code_simp
  then obtain pm' b' g' where run: "Rebuild refLib 0 pmRepl bmRepl pmmRepl ''storage'' =
     Inr ((Some \<lparr>Version = 1, Partitions =
             [\<lparr>Topic = ''t'', Partition = 0, Replicas = [1004, 1002, 1001]\<rparr>,
              \<lparr>Topic = ''t'', Partition = 1, Replicas = [1004, 1002]\<rparr>]\<rparr>, []), pm', b', g')"
    by (cases "Rebuild refLib 0 pmRepl bmRepl pmmRepl ''storage''") auto
  from Rebuild_no_replaced_broker [OF refLib_ok wellFormed_bmRepl run] refLib_ok wellFormed_bmRepl r
  show ?thesis by (auto simp: allUnreplaced_def unreplaced_def)
qed

subsection \<open>No panic when every referenced broker is in the map\<close>

lemma flagView_present: "flagView b' = flagView b \<Longrightarrow> map_of b k \<noteq> None \<Longrightarrow> map_of b' k \<noteq> None"
  using flagView_None by metis

lemma unreplaced_present: "unreplaced b k \<Longrightarrow> map_of b k \<noteq> None"
  by (auto simp: unreplaced_def split: option.splits)

lemma filteredList_present: "k \<in> set (filteredList b) \<Longrightarrow> map_of b k \<noteq> None"
proof -
  assume "k \<in> set (filteredList b)"
  then obtain br where "(k, br) \<in> set b" by (auto simp: filteredList_def)
  then have "k \<in> fst ` set b" by force
  then show ?thesis by (simp add: map_of_eq_None_iff)
qed

lemma derefAll_total: "\<forall>k \<in> set ks. map_of b k \<noteq> None \<Longrightarrow> \<exists>bs. derefAll b ks = Inr bs"
  by (induction ks) (auto split: option.splits sum.splits)

lemma mergeConstraints_total:
  "\<forall>x \<in> set rs. x \<noteq> None \<Longrightarrow> \<exists>c. mergeConstraints rs = Inr c"
proof -
  have "\<forall>x \<in> set rs. x \<noteq> None \<Longrightarrow> \<exists>c. mergeLoop rs c0 = Inr c" for c0
    by (induction rs c0 rule: mergeLoop.induct) auto
  then show "\<forall>x \<in> set rs. x \<noteq> None \<Longrightarrow> \<exists>c. mergeConstraints rs = Inr c"
    by (simp add: mergeConstraints_def)
qed

lemma bestCandidate_total:
  assumes "\<forall>k \<in> set bl. map_of b k \<noteq> None"
  shows "\<exists>r. bestCandidate lib g b bl c by seed = Inr r"
proof -
  from derefAll_total [OF assms] obtain bs where "derefAll b bl = Inr bs" by blast
  then show ?thesis
    by (auto simp: bestCandidate_def split: prod.splits option.splits)
qed

lemma findReplacement_total:
  assumes "stdlib_ok lib" "\<forall>k \<in> set bl. map_of b k \<noteq> None"
  shows "\<exists>r. findReplacement lib g b bl pmm strategy partn c seed = Inr r"
proof (cases "findReplacement lib g b bl pmm strategy partn c seed")
  case (Inr r)
  then show ?thesis by blast
next
  case (Inl e)
  then obtain c' where "bestCandidate lib g b bl c' strategy seed = Inl e \<or>
      (\<exists>k b' g'. bestCandidate lib g b bl c' strategy seed = Inr (Inr k, b', g') \<and> map_of b' k = None)"
    by (auto simp: findReplacement_def split: sum.splits prod.splits option.splits if_splits)
  then show ?thesis
  proof
    assume "bestCandidate lib g b bl c' strategy seed = Inl e"
    with bestCandidate_total [OF assms(2), of lib g c' strategy seed] show ?thesis by simp
  next
    assume "\<exists>k b' g'. bestCandidate lib g b bl c' strategy seed = Inr (Inr k, b', g') \<and> map_of b' k = None"
    then obtain k b' g' where
      bc: "bestCandidate lib g b bl c' strategy seed = Inr (Inr k, b', g')" and n: "map_of b' k = None"
      by blast
    from bestCandidate_mem [OF assms(1) bc] assms(2) have "map_of b k \<noteq> None" by blast
    with bestCandidate_flags [OF bc] n show ?thesis
      using flagView_None by metis
  qed
qed

lemma partitionReplicas_total:
  assumes "stdlib_ok lib" "wellFormed b0" "\<forall>bid \<in> set (Replicas partn). map_of b0 bid \<noteq> None"
  shows "flagView (bmap st) = flagView b0 \<Longrightarrow> \<forall>bid \<in> set rs. map_of b0 bid \<noteq> None \<Longrightarrow>
    list_all (unreplaced b0) (Replicas (newPartn st)) \<Longrightarrow>
    \<exists>r. partitionReplicas lib (filteredList b0) pmm strategy partn rs g st = Inr r"
proof (induction rs arbitrary: g st)
  case Nil
  then show ?case by simp
next
  case (Cons bid rs)
  from Cons.prems(1,2) obtain br where br: "map_of (bmap st) bid = Some br"
    using flagView_present [of "bmap st" b0 bid] by auto
  show ?case
  proof (cases "Replace br")
    case False
    let ?st = "st\<lparr>newPartn := (newPartn st)\<lparr>Replicas := Replicas (newPartn st) @ [bid]\<rparr>\<rparr>"
    from kept_good [OF Cons.prems(1) br False] Cons.prems(3)
    have "list_all (unreplaced b0) (Replicas (newPartn ?st))" by simp
    from Cons.IH [of ?st g, OF _ _ this] Cons.prems(1,2) br False show ?thesis by simp
  next
    case True
    have present: "\<forall>x \<in> set (map (map_of (bmap st)) (Replicas partn) @
                     map (map_of (bmap st)) (Replicas (newPartn st))). x \<noteq> None"
      using assms(3) Cons.prems(1,3) flagView_present [of "bmap st" b0] unreplaced_present [of b0]
      by (auto simp: list_all_iff)
    from mergeConstraints_total [OF present] obtain c where
      c: "mergeConstraints (map (map_of (bmap st)) (Replicas partn) @
                     map (map_of (bmap st)) (Replicas (newPartn st))) = Inr c" by blast
    have bl: "\<forall>k \<in> set (filteredList b0). map_of (bmap st) k \<noteq> None"
      using filteredList_present [of _ b0] flagView_present [OF Cons.prems(1)] by blast
    from findReplacement_total [OF assms(1) bl, of g pmm strategy partn c 1] obtain x b' g' where
      f: "findReplacement lib g (bmap st) (filteredList b0) pmm strategy partn c 1 = Inr (x, b', g')"
      by (metis prod_cases3)
    from findReplacement_flags [OF f] Cons.prems(1) have fb: "flagView b' = flagView b0" by simp
    show ?thesis
    proof (cases x)
      case (Inl err)
      from Cons.IH [of "st\<lparr>errs := errs st @ [err], bmap := b'\<rparr>" g'] fb Cons.prems(2,3)
        br True c f Inl show ?thesis by simp
    next
      case (Inr newID)
      from newID_good [OF assms(1,2) Cons.prems(1) f [unfolded Inr]] have "unreplaced b0 newID" .
      with Cons.IH [of "st\<lparr>newPartn := (newPartn st)\<lparr>Replicas := Replicas (newPartn st) @ [newID]\<rparr>,
                            bmap := b'\<rparr>" g'] fb Cons.prems(2,3)
        br True c f Inr show ?thesis by simp
    qed
  qed
qed

lemma partitionLoop_total:
  assumes "stdlib_ok lib" "wellFormed b0"
  shows "flagView (bmap st) = flagView b0 \<Longrightarrow>
    \<forall>p \<in> set parts. \<forall>bid \<in> set (Replicas p). map_of b0 bid \<noteq> None \<Longrightarrow>
    \<exists>r. partitionLoop lib (filteredList b0) pmm strategy parts g st = Inr r"
proof (induction parts arbitrary: g st)
  case Nil
  then show ?case by simp
next
  case (Cons p ps)
  let ?s0 = "\<lparr>newMap = newMap st, errs = errs st, bmap = bmap st,
              newPartn = \<lparr>Topic = Topic p, Partition = Partition p, Replicas = []\<rparr>\<rparr>"
  from Cons.prems(2) have pp: "\<forall>bid \<in> set (Replicas p). map_of b0 bid \<noteq> None" by simp
  from partitionReplicas_total [OF assms pp, of ?s0 "Replicas p" pmm strategy g] Cons.prems(1) pp
  obtain s1 g1 where
    a: "partitionReplicas lib (filteredList b0) pmm strategy p (Replicas p) g ?s0 = Inr (s1, g1)"
    by auto
  from partitionReplicas_flags [OF a] Cons.prems(1) have "flagView (bmap s1) = flagView b0" by simp
  from Cons.IH [of "\<lparr>newMap = (newMap s1)\<lparr>Partitions := Partitions (newMap s1) @ [newPartn s1]\<rparr>,
             errs = errs s1, bmap = bmap s1\<rparr>" g1] this Cons.prems(2) a
  show ?case by simp
qed

lemma appendReplica_total:
  "n < length (Partitions m) \<Longrightarrow>
     \<exists>m'. appendReplica n i m = Inr m' \<and> length (Partitions m') = length (Partitions m)"
  by (simp add: appendReplica_def)

lemma positionStep_total:
  assumes "stdlib_ok lib" "wellFormed b0" "\<forall>bid \<in> set (Replicas partn). map_of b0 bid \<noteq> None"
    "flagView (bmap st) = flagView b0" "allUnreplaced b0 (Partitions (newMap st))"
    "(pass = 0 \<and> length (Partitions (newMap st)) = n) \<or>
     (0 < pass \<and> n < length (Partitions (newMap st)))"
  shows "\<exists>st' g'. positionStep lib (filteredList b0) pmm strategy pass n partn g st = Inr (st', g') \<and>
           length (Partitions (newMap st')) =
             (if pass = 0 then Suc n else length (Partitions (newMap st)))"
proof -
  define st1 where "st1 = (if pass = 0
                then st\<lparr>newMap := (newMap st)\<lparr>Partitions := Partitions (newMap st) @
                       [\<lparr>Topic = Topic partn, Partition = Partition partn, Replicas = []\<rparr>]\<rparr>\<rparr>
                else st)"
  have f1: "flagView (bmap st1) = flagView b0" and a1: "allUnreplaced b0 (Partitions (newMap st1))"
    using assms(4,5) by (auto simp: st1_def allUnreplaced_def)
  have len1: "length (Partitions (newMap st1)) =
             (if pass = 0 then Suc n else length (Partitions (newMap st)))"
    using assms(6) by (auto simp: st1_def)
  have idx: "n < length (Partitions (newMap st1))"
    using assms(6) by (auto simp: st1_def)
  show ?thesis
  proof (cases "int pass > int (length (Replicas partn)) - 1")
    case True
    then have "positionStep lib (filteredList b0) pmm strategy pass n partn g st =
        Inr (st1\<lparr>skipped := skipped st1 + 1\<rparr>, g)"
      by (simp add: positionStep_def st1_def Let_def)
    with len1 show ?thesis by simp
  next
    case False
    then have "Replicas partn ! pass \<in> set (Replicas partn)" by simp
    with assms(3) f1 obtain br where br: "map_of (bmap st1) (Replicas partn ! pass) = Some br"
      using flagView_present [of "bmap st1" b0] by fastforce
    show ?thesis
    proof (cases "Replace br")
      case no: False
      from appendReplica_total [OF idx, of "Replicas partn ! pass"] obtain m where
        m: "appendReplica n (Replicas partn ! pass) (newMap st1) = Inr m"
           "length (Partitions m) = length (Partitions (newMap st1))" by blast
      with False br no have "positionStep lib (filteredList b0) pmm strategy pass n partn g st =
          Inr (st1\<lparr>newMap := m\<rparr>, g)"
        by (simp add: positionStep_def st1_def [symmetric] Let_def)
      with m(2) len1 show ?thesis by simp
    next
      case yes: True
      from a1 idx have "list_all (unreplaced b0) (Replicas (Partitions (newMap st1) ! n))"
        by (simp add: allUnreplaced_def list_all_length)
      then have present: "\<forall>x \<in> set (map (map_of (bmap st1)) (Replicas partn) @
                        map (map_of (bmap st1)) (Replicas (Partitions (newMap st1) ! n))). x \<noteq> None"
        using assms(3) f1 flagView_present [of "bmap st1" b0] unreplaced_present [of b0]
        by (auto simp: list_all_iff)
      from mergeConstraints_total [OF present] obtain c where
        c: "mergeConstraints (map (map_of (bmap st1)) (Replicas partn) @
                        map (map_of (bmap st1)) (Replicas (Partitions (newMap st1) ! n))) = Inr c"
        by blast
      have bl: "\<forall>k \<in> set (filteredList b0). map_of (bmap st1) k \<noteq> None"
        using filteredList_present [of _ b0] flagView_present [OF f1] by blast
      from findReplacement_total [OF assms(1) bl, of g pmm strategy partn c "int pass * int n + 1"]
      obtain x b' g' where
        f: "findReplacement lib g (bmap st1) (filteredList b0) pmm strategy partn c
              (int pass * int n + 1) = Inr (x, b', g')"
        by (metis prod_cases3)
      show ?thesis
      proof (cases x)
        case (Inl err)
        with False br yes idx c f
        have "positionStep lib (filteredList b0) pmm strategy pass n partn g st =
            Inr (st1\<lparr>errs := errs st1 @ [err], bmap := b'\<rparr>, g')"
          by (simp add: positionStep_def st1_def [symmetric] Let_def)
        with len1 show ?thesis by simp
      next
        case (Inr newID)
        from appendReplica_total [OF idx, of newID] obtain m where
          m: "appendReplica n newID (newMap st1) = Inr m"
             "length (Partitions m) = length (Partitions (newMap st1))" by blast
        with False br yes idx c f Inr
        have "positionStep lib (filteredList b0) pmm strategy pass n partn g st =
            Inr (st1\<lparr>newMap := m, bmap := b'\<rparr>, g')"
          by (simp add: positionStep_def st1_def [symmetric] Let_def)
        with m(2) len1 show ?thesis by simp
      qed
    qed
  qed
qed

lemma positionPass_total:
  assumes "stdlib_ok lib" "wellFormed b0"
  shows "\<forall>p \<in> set parts. \<forall>bid \<in> set (Replicas p). map_of b0 bid \<noteq> None \<Longrightarrow>
    flagView (bmap st) = flagView b0 \<Longrightarrow> allUnreplaced b0 (Partitions (newMap st)) \<Longrightarrow>
    (pass = 0 \<and> length (Partitions (newMap st)) = n) \<or>
      (0 < pass \<and> n + length parts \<le> length (Partitions (newMap st))) \<Longrightarrow>
    \<exists>st' g'. positionPass lib (filteredList b0) pmm strategy pass n parts g st = Inr (st', g') \<and>
      length (Partitions (newMap st')) =
        (if pass = 0 then n + length parts else length (Partitions (newMap st)))"
proof (induction parts arbitrary: n g st)
  case Nil
  then show ?case by auto
next
  case (Cons p ps)
  from Cons.prems(1) have pp: "\<forall>bid \<in> set (Replicas p). map_of b0 bid \<noteq> None" by simp
  from Cons.prems(4) have ix: "(pass = 0 \<and> length (Partitions (newMap st)) = n) \<or>
     (0 < pass \<and> n < length (Partitions (newMap st)))" by auto
  from positionStep_total [OF assms pp Cons.prems(2,3) ix, of pmm strategy g]
  obtain s1 g1 where
    s: "positionStep lib (filteredList b0) pmm strategy pass n p g st = Inr (s1, g1)" and
    l: "length (Partitions (newMap s1)) = (if pass = 0 then Suc n else length (Partitions (newMap st)))"
    by blast
  from positionStep_good [OF assms Cons.prems(2,3) s]
  have g1: "flagView (bmap s1) = flagView b0" "allUnreplaced b0 (Partitions (newMap s1))" by simp_all
  from l Cons.prems(4) have ix': "(pass = 0 \<and> length (Partitions (newMap s1)) = Suc n) \<or>
      (0 < pass \<and> Suc n + length ps \<le> length (Partitions (newMap s1)))" by auto
  from Cons.IH [OF _ g1 ix', of g1] Cons.prems(1)
  obtain st' g' where
    r: "positionPass lib (filteredList b0) pmm strategy pass (Suc n) ps g1 s1 = Inr (st', g')" and
    l': "length (Partitions (newMap st')) =
        (if pass = 0 then Suc n + length ps else length (Partitions (newMap s1)))"
    by auto
  from s r l l' show ?case by auto
qed

lemma positionLoop_total:
  "stdlib_ok lib \<Longrightarrow> wellFormed b0 \<Longrightarrow> bl = filteredList b0 \<Longrightarrow>
    \<forall>p \<in> set parts. \<forall>bid \<in> set (Replicas p). map_of b0 bid \<noteq> None \<Longrightarrow>
    flagView (bmap st) = flagView b0 \<Longrightarrow> allUnreplaced b0 (Partitions (newMap st)) \<Longrightarrow>
    (pass = 0 \<and> length (Partitions (newMap st)) = 0) \<or>
      (0 < pass \<and> length (Partitions (newMap st)) = length parts) \<Longrightarrow>
    \<exists>r. positionLoop lib bl pmm strategy parts pass g st = Inr r"
proof (induction lib bl pmm strategy parts pass g st rule: positionLoop.induct)
  case (1 lib bl pmm strategy parts pass g st)
  show ?case
  proof (cases "skipped st < length parts")
    case False
    then show ?thesis by (simp add: positionLoop.simps)
  next
    case True
    from "1.prems"(7) have ix: "(pass = 0 \<and> length (Partitions (newMap st)) = 0) \<or>
      (0 < pass \<and> 0 + length parts \<le> length (Partitions (newMap st)))" by auto
    from positionPass_total [OF "1.prems"(1,2,4,5,6) ix, of pmm strategy g]
    obtain s1 g1 where
      p: "positionPass lib bl pmm strategy pass 0 parts g st = Inr (s1, g1)" and
      l: "length (Partitions (newMap s1)) =
        (if pass = 0 then 0 + length parts else length (Partitions (newMap st)))"
      unfolding "1.prems"(3) by blast
    from positionPass_good [OF "1.prems"(1,2,5,6) p [unfolded "1.prems"(3)]]
    have g1: "flagView (bmap s1) = flagView b0" "allUnreplaced b0 (Partitions (newMap s1))" by simp_all
    from l "1.prems"(7) have ix': "(Suc pass = 0 \<and> length (Partitions (newMap s1)) = 0) \<or>
      (0 < Suc pass \<and> length (Partitions (newMap s1)) = length parts)" by auto
    from "1.IH" [OF True p refl "1.prems"(1,2,3,4) g1 ix'] True p show ?thesis
      by (simp add: positionLoop.simps [of lib bl pmm strategy parts pass])
  qed
qed

lemma Rebuild_total:
  assumes "stdlib_ok lib" "wellFormed b"
    "\<forall>p \<in> set (Partitions pm). \<forall>bid \<in> set (Replicas p). map_of b bid \<noteq> None"
  shows "\<exists>r. Rebuild lib g pm b pmm strategy = Inr r"
proof -
  have srt: "\<forall>p \<in> set (sort_Sort lib lt (Partitions pm)). \<forall>bid \<in> set (Replicas p). map_of b bid \<noteq> None"
    for lt
  proof -
    from assms(1) have "mset (sort_Sort lib lt (Partitions pm)) = mset (Partitions pm)"
      unfolding stdlib_ok_def by blast
    then have "set (sort_Sort lib lt (Partitions pm)) = set (Partitions pm)" by (metis set_mset_mset)
    with assms(3) show ?thesis by simp
  qed
  show ?thesis
  proof (cases "strategy = ''count''")
    case True
    have "\<exists>r. positionLoop lib (filteredList b) pmm strategy
            (sort_Sort lib partitionList_Less (Partitions pm)) 0 g
            \<lparr>newMap = NewPartitionMap, errs = [], bmap = b, skipped = 0\<rparr> = Inr r"
      by (rule positionLoop_total [OF assms(1,2) refl srt])
        (simp_all add: NewPartitionMap_def allUnreplaced_def)
    then obtain r where "positionLoop lib (filteredList b) pmm strategy
            (sort_Sort lib partitionList_Less (Partitions pm)) 0 g
            \<lparr>newMap = NewPartitionMap, errs = [], bmap = b, skipped = 0\<rparr> = Inr r"
      by blast
    with True show ?thesis
      by (cases r) (simp add: Rebuild_def placeByPosition_def Let_def)
  next
    case False
    show ?thesis
    proof (cases "strategy = ''storage''")
      case True
      have "\<exists>r. partitionLoop lib (filteredList b) pmm strategy
            (sort_Sort lib (partitionsBySize_Less pmm) (Partitions pm)) g
            \<lparr>newMap = NewPartitionMap, errs = [], bmap = b\<rparr> = Inr r"
        by (rule partitionLoop_total [OF assms(1,2) _ srt]) simp
      then obtain r where "partitionLoop lib (filteredList b) pmm strategy
            (sort_Sort lib (partitionsBySize_Less pmm) (Partitions pm)) g
            \<lparr>newMap = NewPartitionMap, errs = [], bmap = b\<rparr> = Inr r"
        by blast
      with True show ?thesis
        by (cases r) (simp add: Rebuild_def placeByPartition_def Let_def split: prod.splits)
    next
      case other: False
      with False show ?thesis by (simp add: Rebuild_def)
    qed
  qed
qed

subsection \<open>Independence of the state of the global generator\<close>













subsection \<open>Presence in the broker map as the precondition of Rebuild\<close>

text \<open>
  Claim C9. Both placements read \<^verbatim>\<open>bm[bid].Replace\<close> with no test for presence. With
  a library that keeps its contract: under the storage strategy, a replica ID of any
  partition that has no entry in the broker map makes \<^verbatim>\<open>Rebuild\<close> panic with a nil
  pointer dereference; under the count strategy, so does a leader (first replica)
  without an entry. Conversely, when the broker map is well formed and every replica
  ID of the partition map has an entry, \<^verbatim>\<open>Rebuild\<close> returns, for every strategy.
\<close>

theorem Rebuild_missing_broker_panics:
  assumes "stdlib_ok lib"
  shows "(p \<in> set (Partitions pm) \<and> bid \<in> set (Replicas p) \<and> map_of b bid = None \<longrightarrow>
            Rebuild lib g pm b pmm ''storage'' = Inl NilPointerDereference) \<and>
         (p \<in> set (Partitions pm) \<and> Replicas p \<noteq> [] \<and> map_of b (hd (Replicas p)) = None \<longrightarrow>
            Rebuild lib g pm b pmm ''count'' = Inl NilPointerDereference) \<and>
         (wellFormed b \<and> (\<forall>q \<in> set (Partitions pm). \<forall>i \<in> set (Replicas q). map_of b i \<noteq> None) \<longrightarrow>
            (\<exists>r. Rebuild lib g pm b pmm strategy = Inr r))"
proof (intro conjI impI)
  assume a: "p \<in> set (Partitions pm) \<and> bid \<in> set (Replicas p) \<and> map_of b bid = None"
  from assms a have "p \<in> set (sort_Sort lib (partitionsBySize_Less pmm) (Partitions pm))"
    unfolding stdlib_ok_def by (metis set_mset_mset)
  with a have "partitionLoop lib (filteredList b) pmm ''storage''
        (sort_Sort lib (partitionsBySize_Less pmm) (Partitions pm)) g
        \<lparr>newMap = NewPartitionMap, errs = [], bmap = b\<rparr> = Inl NilPointerDereference"
    by (intro partitionLoop_missing) auto
  then show "Rebuild lib g pm b pmm ''storage'' = Inl NilPointerDereference"
    by (simp add: Rebuild_def placeByPartition_def)
next
  assume a: "p \<in> set (Partitions pm) \<and> Replicas p \<noteq> [] \<and> map_of b (hd (Replicas p)) = None"
  let ?parts = "sort_Sort lib partitionList_Less (Partitions pm)"
  from assms a have mem: "p \<in> set ?parts"
    unfolding stdlib_ok_def by (metis set_mset_mset)
  then have ne: "0 < length ?parts" by (cases ?parts) auto
  from a mem have "positionPass lib (filteredList b) pmm ''count'' 0 0 ?parts g
        \<lparr>newMap = NewPartitionMap, errs = [], bmap = b, skipped = 0\<rparr> = Inl NilPointerDereference"
    by (intro positionPass_missing) (auto simp: NewPartitionMap_def)
  with ne have "positionLoop lib (filteredList b) pmm ''count'' ?parts 0 g
        \<lparr>newMap = NewPartitionMap, errs = [], bmap = b, skipped = 0\<rparr> = Inl NilPointerDereference"
    by (subst positionLoop.simps) simp
  then show "Rebuild lib g pm b pmm ''count'' = Inl NilPointerDereference"
    by (simp add: Rebuild_def placeByPosition_def)
next
  assume "wellFormed b \<and> (\<forall>q \<in> set (Partitions pm). \<forall>i \<in> set (Replicas q). map_of b i \<noteq> None)"
  then show "\<exists>r. Rebuild lib g pm b pmm strategy = Inr r"
    using Rebuild_total [OF assms] by blast
qed

theorem Rebuild_missing_broker_panics_witness:
  "stdlib_ok refLib \<and>
   \<lparr>Topic = ''t'', Partition = 0, Replicas = [0, 0]\<rparr> \<in> set (Partitions pmStub) \<and>
   (0::int) \<in> set [0, 0] \<and> [0, 0 :: int] \<noteq> [] \<and>
   map_of (tl bmFour) 0 = None \<and>
   Rebuild refLib 0 pmStub (tl bmFour) Map.empty ''storage'' = Inl NilPointerDereference \<and>
   Rebuild refLib 0 pmStub (tl bmFour) Map.empty ''count'' = Inl NilPointerDereference \<and>
   wellFormed bmFour \<and>
   list_all (\<lambda>q. list_all (\<lambda>i. map_of bmFour i \<noteq> None) (Replicas q)) (Partitions pmStub) \<and>
   (\<exists>r. Rebuild refLib 0 pmStub bmFour Map.empty ''count'' = Inr r)"
proof -
  have m: "\<lparr>Topic = ''t'', Partition = 0, Replicas = [0, 0]\<rparr> \<in> set (Partitions pmStub)"
    by (simp add: pmStub_def)
  have n: "map_of (tl bmFour) 0 = None"
    by (simp add: bmFour_def mkBroker_def)
  have w: "wellFormed bmFour"
    by (simp add: wellFormed_def bmFour_def mkBroker_def)
  have pr: "list_all (\<lambda>q. list_all (\<lambda>i. map_of bmFour i \<noteq> None) (Replicas q)) (Partitions pmStub)"
    by (simp add: pmStub_def bmFour_def mkBroker_def)
  then have pr': "\<forall>q \<in> set (Partitions pmStub). \<forall>i \<in> set (Replicas q). map_of bmFour i \<noteq> None"
    by (simp add: list_all_iff)
  from Rebuild_missing_broker_panics [OF refLib_ok,
      of "\<lparr>Topic = ''t'', Partition = 0, Replicas = [0, 0]\<rparr>" pmStub 0 "tl bmFour" 0 Map.empty]
    m n
  have crash: "Rebuild refLib 0 pmStub (tl bmFour) Map.empty ''storage'' = Inl NilPointerDereference"
    "Rebuild refLib 0 pmStub (tl bmFour) Map.empty ''count'' = Inl NilPointerDereference"
    by simp_all
  from Rebuild_missing_broker_panics [OF refLib_ok, of _ pmStub _ bmFour 0 Map.empty "''count''"] w pr'
  have ok: "\<exists>r. Rebuild refLib 0 pmStub bmFour Map.empty ''count'' = Inr r"
    by blast
  from refLib_ok m n crash w pr ok show ?thesis by simp
qed

section \<open>Properties of planning relocations\<close>













text \<open>
  When the replicas of the partition cover every other locality, the candidate that
  passes the constraints is the source itself: the constraints leave the source out,
  and nothing removes it from the candidates (the locality-scoped branch tests
  \<^verbatim>\<open>b.ID != sourceID\<close>). The move 1001 to 1001 is committed, and the second write
  to \<^verbatim>\<open>StorageFree\<close> leaves the source with 180, less than before.
\<close>

lemma planRelocationsForBroker_self_move:
  "moveOutcome (planRelocationsForBroker refLib (1/10) False 1001 10 pmmTen 0 stSelf) 1001 1001 =
     Inr (1, Some 180, Some 180)"
  by code_simp

end
